theory Spec2Isabelle
  imports Main "HOL-Library.AList" "HOL-Library.Multiset"
begin

section \<open>Key functions and key sequences (keyfun.go)\<close>

text \<open>
  \<^verbatim>\<open>type KeyFuns int32\<close> with the constants of the \<^verbatim>\<open>iota\<close> block. The
  enumeration is modelled as a datatype with one constructor per declared constant (the
  counter \<^verbatim>\<open>KeyFunsN\<close> included); \<open>KeyFuns_val\<close> is the integer each constant stands
  for, and it is what the comparisons \<^verbatim>\<open><\<close> and \<^verbatim>\<open>>\<close> of the code compare.
\<close>

datatype KeyFuns =
    KeyFunNil
  | KeyFunNeeds2
  | KeyFunNextPanel
  | KeyFunPrevPanel
  | KeyFunGotoLine
  | KeyFunSearchFile
  | KeyFunSearchProj
  | KeyFunFileOpen
  | KeyFunBufSelect
  | KeyFunBufSave
  | KeyFunExecCmd
  | KeyFunsN

fun KeyFuns_val :: "KeyFuns \<Rightarrow> int" where
  "KeyFuns_val KeyFunNil = 0"
| "KeyFuns_val KeyFunNeeds2 = 1"
| "KeyFuns_val KeyFunNextPanel = 2"
| "KeyFuns_val KeyFunPrevPanel = 3"
| "KeyFuns_val KeyFunGotoLine = 4"
| "KeyFuns_val KeyFunSearchFile = 5"
| "KeyFuns_val KeyFunSearchProj = 6"
| "KeyFuns_val KeyFunFileOpen = 7"
| "KeyFuns_val KeyFunBufSelect = 8"
| "KeyFuns_val KeyFunBufSave = 9"
| "KeyFuns_val KeyFunExecCmd = 10"
| "KeyFuns_val KeyFunsN = 11"

text \<open>
  Modelled from the spec: the method \<^verbatim>\<open>KeyFuns.String\<close> is generated by the
  \<^verbatim>\<open>go:generate stringer -type=KeyFuns\<close> directive and its file is not among the
  sources. The spec only says that the placeholder chord names the function; stringer
  returns the identifier of each declared constant, which is what is written here.
\<close>

fun KeyFuns_String :: "KeyFuns \<Rightarrow> string" where
  "KeyFuns_String KeyFunNil = ''KeyFunNil''"
| "KeyFuns_String KeyFunNeeds2 = ''KeyFunNeeds2''"
| "KeyFuns_String KeyFunNextPanel = ''KeyFunNextPanel''"
| "KeyFuns_String KeyFunPrevPanel = ''KeyFunPrevPanel''"
| "KeyFuns_String KeyFunGotoLine = ''KeyFunGotoLine''"
| "KeyFuns_String KeyFunSearchFile = ''KeyFunSearchFile''"
| "KeyFuns_String KeyFunSearchProj = ''KeyFunSearchProj''"
| "KeyFuns_String KeyFunFileOpen = ''KeyFunFileOpen''"
| "KeyFuns_String KeyFunBufSelect = ''KeyFunBufSelect''"
| "KeyFuns_String KeyFunBufSave = ''KeyFunBufSave''"
| "KeyFuns_String KeyFunExecCmd = ''KeyFunExecCmd''"
| "KeyFuns_String KeyFunsN = ''KeyFunsN''"

text \<open>\<^verbatim>\<open>key.Chord\<close> is a Go string: a sequence of bytes.\<close>

type_synonym Chord = string

record KeySeq =
  Key1 :: Chord
  Key2 :: Chord

subsection \<open>The text encoding of a key sequence\<close>

text \<open>
  \<^verbatim>\<open>bytes.Join(s, sep)\<close>: the elements of \<open>s\<close> with \<open>sep\<close> between each two.
\<close>

fun bytes_Join :: "string list \<Rightarrow> string \<Rightarrow> string" where
  "bytes_Join [] sep = []"
| "bytes_Join [b] sep = b"
| "bytes_Join (b # bs) sep = b @ sep @ bytes_Join bs sep"

text \<open>
  \<^verbatim>\<open>bytes.Split(s, sep)\<close> for a separator of one byte, the only way the code calls it
  (\<^verbatim>\<open>[]byte(";")\<close>): the pieces of \<open>s\<close> between the occurrences of the separator, one
  more piece than there are occurrences. An input without the separator gives the single
  piece \<open>s\<close>, also when \<open>s\<close> is empty.
\<close>

fun bytes_Split :: "string \<Rightarrow> char \<Rightarrow> string list" where
  "bytes_Split [] c = [[]]"
| "bytes_Split (x # xs) c =
     (if x = c then [] # bytes_Split xs c
      else (case bytes_Split xs c of
              [] \<Rightarrow> [[x]]
            | p # ps \<Rightarrow> (x # p) # ps))"

text \<open>
  \<^verbatim>\<open>MarshalText\<close> returns the bytes and the error \<^verbatim>\<open>nil\<close> (\<open>None\<close>).
\<close>

datatype error = Error string

definition MarshalText :: "KeySeq \<Rightarrow> string \<times> error option" where
  "MarshalText kf =
     (let bs = [Key1 kf, Key2 kf];
          b = bytes_Join bs '';''
      in (b, None))"

text \<open>
  \<^verbatim>\<open>UnmarshalText\<close> writes through its receiver and returns an error. The model
  returns the receiver's new contents together with the error; the result \<open>None\<close> stands
  for the run-time panic of an index out of range, which \<^verbatim>\<open>bs[0]\<close> and \<^verbatim>\<open>bs[1]\<close>
  raise when the slice is too short.
\<close>

definition UnmarshalText :: "KeySeq \<Rightarrow> string \<Rightarrow> (KeySeq \<times> error option) option" where
  "UnmarshalText kf b =
     (let bs = bytes_Split b (CHR '';'') in
      if length bs \<le> 0 then None
      else let kf1 = kf\<lparr>Key1 := bs ! 0\<rparr> in
        if length bs \<le> 1 then None
        else let kf2 = kf1\<lparr>Key2 := bs ! 1\<rparr> in
          Some (kf2, None))"

section \<open>Key maps and the state of the package\<close>

text \<open>
  \<^verbatim>\<open>KeyMapItem\<close>, the element of the slices \<^verbatim>\<open>ToSlice\<close> builds.
\<close>

record KeyMapItem =
  Keys :: KeySeq
  Fun :: KeyFuns

text \<open>
  \<^verbatim>\<open>type KeySeqMap map[KeySeq]KeyFuns\<close>. A Go map value is a reference to a hash
  table, or \<^verbatim>\<open>nil\<close>: copies of the value share the table, and the code relies on it
  (\<^verbatim>\<open>MapByName\<close> returns the address of a copy of the registry's item, and
  \<^verbatim>\<open>Update\<close> writes through it). So the tables live in a store, addressed by
  numbers, and a \<open>KeySeqMap\<close> is \<open>nil_map\<close> or the address of its table. A table is
  an association list with distinct keys; its order stands for the order in which
  \<^verbatim>\<open>range\<close> happens to produce the entries, which Go leaves unspecified, and the
  theorems below hold for every order.
\<close>

type_synonym addr = nat

datatype KeySeqMap = nil_map | map_at addr

type_synonym KeyMapName = string

record KeyMapsItem =
  Name :: string
  Desc :: string
  Map :: KeySeqMap

type_synonym KeyMaps = "KeyMapsItem list"

text \<open>
  \<^verbatim>\<open>gi.KeyMap\<close> is \<^verbatim>\<open>map[key.Chord]gi.KeyFuns\<close>, of the GoGi library; the only
  value of \<^verbatim>\<open>gi.KeyFuns\<close> the code stores is \<^verbatim>\<open>gi.KeyFunNil\<close>, and only the
  presence of a key is ever read.
\<close>

datatype gi_KeyFuns = gi_KeyFunNil

text \<open>
  The package's variables: the store of hash tables, \<^verbatim>\<open>AvailKeyMaps\<close>,
  \<^verbatim>\<open>DefaultKeyMap\<close>, \<^verbatim>\<open>ActiveKeyMap\<close> (a pointer to a \<open>KeySeqMap\<close>, \<open>None\<close>
  when it is \<^verbatim>\<open>nil\<close>) and \<^verbatim>\<open>Needs2KeyMap\<close>. The messages written to the log and
  to standard output are not part of the state.
\<close>

record gide =
  tables :: "addr \<Rightarrow> (KeySeq \<times> KeyFuns) list"
  AvailKeyMaps :: KeyMaps
  DefaultKeyMap :: KeyMapName
  ActiveKeyMap :: "KeySeqMap option"
  Needs2KeyMap :: "Chord \<rightharpoonup> gi_KeyFuns"

subsection \<open>Reading and writing a Go map\<close>

text \<open>Reading a \<^verbatim>\<open>nil\<close> map is reading an empty one.\<close>

definition entries :: "gide \<Rightarrow> KeySeqMap \<Rightarrow> (KeySeq \<times> KeyFuns) list" where
  "entries st m = (case m of nil_map \<Rightarrow> [] | map_at a \<Rightarrow> tables st a)"

text \<open>\<^verbatim>\<open>delete(m, key)\<close>; on a \<^verbatim>\<open>nil\<close> map it does nothing.\<close>

definition map_delete :: "gide \<Rightarrow> KeySeqMap \<Rightarrow> KeySeq \<Rightarrow> gide" where
  "map_delete st m key =
     (case m of
        nil_map \<Rightarrow> st
      | map_at a \<Rightarrow> st\<lparr>tables := (tables st)(a := AList.delete key (tables st a))\<rparr>)"

text \<open>\<^verbatim>\<open>m[key] = v\<close>; on a \<^verbatim>\<open>nil\<close> map it panics (\<open>None\<close>).\<close>

definition map_assign :: "gide \<Rightarrow> KeySeqMap \<Rightarrow> KeySeq \<Rightarrow> KeyFuns \<Rightarrow> gide option" where
  "map_assign st m key v =
     (case m of
        nil_map \<Rightarrow> None
      | map_at a \<Rightarrow> Some (st\<lparr>tables := (tables st)(a := AList.update key v (tables st a))\<rparr>))"

text \<open>
  \<^verbatim>\<open>ToSlice\<close> has a pointer receiver and starts with \<^verbatim>\<open>len(*km)\<close>: on a
  \<^verbatim>\<open>nil\<close> pointer it panics.
\<close>

definition ToSlice :: "gide \<Rightarrow> KeySeqMap option \<Rightarrow> KeyMapItem list option" where
  "ToSlice st km =
     (case km of
        None \<Rightarrow> None
      | Some m \<Rightarrow> Some (map (\<lambda>(key, f). \<lparr>Keys = key, Fun = f\<rparr>) (entries st m)))"

subsection \<open>The registry\<close>

text \<open>
  \<^verbatim>\<open>MapByName\<close>: the loop over the list with its index; the result is the triple the
  code returns, \<^verbatim>\<open>(&it.Map, i, true)\<close> at the first item of that name and
  \<^verbatim>\<open>(nil, -1, false)\<close> when there is none.
\<close>

fun MapByName_loop :: "KeyMapsItem list \<Rightarrow> int \<Rightarrow> KeyMapName \<Rightarrow> KeySeqMap option \<times> int \<times> bool" where
  "MapByName_loop [] i name = (None, -1, False)"
| "MapByName_loop (it # rest) i name =
     (if Name it = name then (Some (Map it), i, True)
      else MapByName_loop rest (i + 1) name)"

definition MapByName :: "KeyMaps \<Rightarrow> KeyMapName \<Rightarrow> KeySeqMap option \<times> int \<times> bool" where
  "MapByName km name = MapByName_loop km 0 name"

subsection \<open>Update\<close>

text \<open>The first loop of \<^verbatim>\<open>Update\<close>: every entry whose function is \<^verbatim>\<open>KeyFunNil\<close> is deleted.\<close>

definition purge_nil :: "gide \<Rightarrow> KeySeqMap \<Rightarrow> gide" where
  "purge_nil st m =
     fold (\<lambda>(key, v) s. if v = KeyFunNil then map_delete s m key else s) (entries st m) st"

text \<open>\<^verbatim>\<open>for _, ai := range addkm { (*km)[ai.Keys] = ai.Fun }\<close>\<close>

fun assign_all :: "gide \<Rightarrow> KeySeqMap \<Rightarrow> KeyMapItem list \<Rightarrow> gide option" where
  "assign_all st m [] = Some st"
| "assign_all st m (ai # rest) =
     (case map_assign st m (Keys ai) (Fun ai) of
        None \<Rightarrow> None
      | Some st' \<Rightarrow> assign_all st' m rest)"

definition TrimPrefix :: "string \<Rightarrow> string \<Rightarrow> string" where
  "TrimPrefix s prefix =
     (if take (length prefix) s = prefix then drop (length prefix) s else s)"

text \<open>
  The item appended in the first branch of the merge loop: a copy of the default item
  whose \<^verbatim>\<open>Keys.Key1\<close> is overwritten with the marker; \<^verbatim>\<open>Keys.Key2\<close> and
  \<^verbatim>\<open>Fun\<close> stay those of the default item.
\<close>

definition not_set_item :: "KeyMapItem \<Rightarrow> KeyMapItem" where
  "not_set_item dki =
     (let s = KeyFuns_String (Fun dki);
          s = TrimPrefix s ''KeyFun'';
          s = ''- Not Set - '' @ s
      in dki\<lparr>Keys := (Keys dki)\<lparr>Key1 := s\<rparr>\<rparr>)"

text \<open>
  The merge loop over the sorted default items, with the index \<^verbatim>\<open>mi\<close> into the
  sorted items of the map: it stops when \<^verbatim>\<open>mi\<close> reaches the end, appends a marker
  item when the default item's function is smaller, and advances \<^verbatim>\<open>mi\<close> in the two
  other branches. Each iteration takes the next default item.
\<close>

fun merge_loop :: "KeyMapItem list \<Rightarrow> KeyMapItem list \<Rightarrow> nat \<Rightarrow> KeyMapItem list \<Rightarrow> KeyMapItem list" where
  "merge_loop [] kms mi addkm = addkm"
| "merge_loop (dki # dkms) kms mi addkm =
     (if mi \<ge> length kms then addkm
      else let mmi = kms ! mi in
        if KeyFuns_val (Fun dki) < KeyFuns_val (Fun mmi)
          then merge_loop dkms kms mi (addkm @ [not_set_item dki])
        else if KeyFuns_val (Fun dki) > KeyFuns_val (Fun mmi)
          then merge_loop dkms kms (mi + 1) addkm
        else merge_loop dkms kms (mi + 1) addkm)"

text \<open>
  \<^verbatim>\<open>sort.Slice\<close> with \<^verbatim>\<open>less\<close> comparing \<^verbatim>\<open>Fun\<close>. It is not stable; the
  insertion sort used here returns one of the orders it may return, and every other one
  is what this sort returns for another order of the table.
\<close>

definition sort_by_Fun :: "KeyMapItem list \<Rightarrow> KeyMapItem list" where
  "sort_by_Fun xs = sort_key (\<lambda>it. KeyFuns_val (Fun it)) xs"

text \<open>
  The loop that rebuilds \<^verbatim>\<open>Needs2KeyMap\<close> from the entries of the map, starting from
  a fresh empty map.
\<close>

definition collect_needs2 :: "(KeySeq \<times> KeyFuns) list \<Rightarrow> (Chord \<rightharpoonup> gi_KeyFuns)" where
  "collect_needs2 es =
     fold (\<lambda>(key, _) n. if Key2 key \<noteq> [] then n(Key1 key \<mapsto> gi_KeyFunNil) else n) es Map.empty"

text \<open>
  \<^verbatim>\<open>Update\<close>, with its pointer receiver. \<open>None\<close> is a panic: a \<^verbatim>\<open>nil\<close> receiver,
  a default key map that \<^verbatim>\<open>MapByName\<close> does not find (\<^verbatim>\<open>dkm.ToSlice()\<close> then
  dereferences \<^verbatim>\<open>nil\<close>), or an assignment into a \<^verbatim>\<open>nil\<close> map. The default map is
  looked up after the purge, so when the map is the default map itself the purged table
  is what is read. The branch for an empty map returns before \<^verbatim>\<open>Needs2KeyMap\<close> is
  rebuilt. The last loop of the code only writes warnings to the log.
\<close>

definition Update :: "gide \<Rightarrow> KeySeqMap option \<Rightarrow> gide option" where
  "Update st km =
     (case km of
        None \<Rightarrow> None
      | Some m \<Rightarrow>
          let st1 = purge_nil st m;
              (dkm, _, _) = MapByName (AvailKeyMaps st1) (DefaultKeyMap st1)
          in case ToSlice st1 dkm of
               None \<Rightarrow> None
             | Some dkms \<Rightarrow>
                 (case ToSlice st1 km of
                    None \<Rightarrow> None
                  | Some kms \<Rightarrow>
                      if length kms = 0 then
                        let addkm = fold (\<lambda>dki a. a @ [dki]) dkms []
                        in assign_all st1 m addkm
                      else
                        let dkms' = sort_by_Fun dkms;
                            kms' = sort_by_Fun kms;
                            addkm = merge_loop dkms' kms' 0 []
                        in case assign_all st1 m addkm of
                             None \<Rightarrow> None
                           | Some st2 \<Rightarrow>
                               Some (st2\<lparr>Needs2KeyMap := collect_needs2 (entries st2 m)\<rparr>)))"

subsection \<open>Activating a key map\<close>

definition SetActiveKeyMap :: "gide \<Rightarrow> KeySeqMap option \<Rightarrow> gide option" where
  "SetActiveKeyMap st km =
     (case Update st km of
        None \<Rightarrow> None
      | Some st' \<Rightarrow> Some (st'\<lparr>ActiveKeyMap := km\<rparr>))"

definition SetActiveKeyMapName :: "gide \<Rightarrow> KeyMapName \<Rightarrow> gide option" where
  "SetActiveKeyMapName st mapnm =
     (let (km, _, ok) = MapByName (AvailKeyMaps st) mapnm
      in if ok then SetActiveKeyMap st km else Some st)"

subsection \<open>Resolving chords\<close>

text \<open>
  \<^verbatim>\<open>KeyFun\<close>. \<open>None\<close> is the panic of \<^verbatim>\<open>*ActiveKeyMap\<close> on a \<^verbatim>\<open>nil\<close> pointer.
\<close>

definition KeyFun :: "gide \<Rightarrow> Chord \<Rightarrow> Chord \<Rightarrow> KeyFuns option" where
  "KeyFun st key1 key2 =
     (let kf = KeyFunNil;
          ks = \<lparr>Key1 = key1, Key2 = key2\<rparr>
      in if key1 \<noteq> [] \<and> key2 \<noteq> [] then
           (case ActiveKeyMap st of
              None \<Rightarrow> None
            | Some m \<Rightarrow>
                (case map_of (entries st m) ks of
                   Some kfg \<Rightarrow> Some kfg
                 | None \<Rightarrow> Some kf))
         else if key1 \<noteq> [] then
           (if Needs2KeyMap st key1 \<noteq> None then Some KeyFunNeeds2
            else (case ActiveKeyMap st of
                    None \<Rightarrow> None
                  | Some m \<Rightarrow>
                      (case map_of (entries st m) ks of
                         Some kfg \<Rightarrow> Some kfg
                       | None \<Rightarrow> Some kf)))
         else Some kf)"

subsection \<open>The compiled-in key maps\<close>

text \<open>
  The six standard key maps hold the same seven entries; \<open>std_entries\<close> is that
  literal, in the order it is written.
\<close>

definition std_entries :: "(KeySeq \<times> KeyFuns) list" where
  "std_entries =
     [(\<lparr>Key1 = ''Control+X'', Key2 = ''o''\<rparr>, KeyFunNextPanel),
      (\<lparr>Key1 = ''Control+X'', Key2 = ''p''\<rparr>, KeyFunPrevPanel),
      (\<lparr>Key1 = ''Control+X'', Key2 = ''f''\<rparr>, KeyFunFileOpen),
      (\<lparr>Key1 = ''Control+X'', Key2 = ''Control+F''\<rparr>, KeyFunFileOpen),
      (\<lparr>Key1 = ''Control+X'', Key2 = ''b''\<rparr>, KeyFunBufSelect),
      (\<lparr>Key1 = ''Control+X'', Key2 = ''s''\<rparr>, KeyFunBufSave),
      (\<lparr>Key1 = ''Control+c'', Key2 = ''Control+c''\<rparr>, KeyFunExecCmd)]"

definition StdKeyMaps :: "(string \<times> string \<times> (KeySeq \<times> KeyFuns) list) list" where
  "StdKeyMaps =
     [(''MacStd'', ''Standard Mac KeyMap'', std_entries),
      (''MacEmacs'', ''Mac with emacs-style navigation -- emacs wins in conflicts'', std_entries),
      (''LinuxStd'', ''Standard Linux KeySeqMap'', std_entries),
      (''LinuxEmacs'', ''Linux with emacs-style navigation -- emacs wins in conflicts'', std_entries),
      (''WindowsStd'', ''Standard Windows KeySeqMap'', std_entries),
      (''ChromeStd'', ''Standard chrome-browser and linux-under-chrome bindings'', std_entries)]"

text \<open>
  The state after the package's \<^verbatim>\<open>init\<close>, which copies \<^verbatim>\<open>StdKeyMaps\<close> into
  \<^verbatim>\<open>AvailKeyMaps\<close>: the copy gives each item a table of its own (addresses 0 to 5)
  with the entries of the literal. \<^verbatim>\<open>DefaultKeyMap\<close> is \<^verbatim>\<open>"MacEmacs"\<close>, no map is
  active yet and \<^verbatim>\<open>Needs2KeyMap\<close> is \<^verbatim>\<open>nil\<close>. Every other address holds an empty
  table.
\<close>

definition init_gide :: gide where
  "init_gide =
     \<lparr>tables = (\<lambda>a. if a < length StdKeyMaps then snd (snd (StdKeyMaps ! a)) else []),
      AvailKeyMaps =
        map (\<lambda>(a, (n, d, _)). \<lparr>Name = n, Desc = d, Map = map_at a\<rparr>)
          (zip [0 ..< length StdKeyMaps] StdKeyMaps),
      DefaultKeyMap = ''MacEmacs'',
      ActiveKeyMap = None,
      Needs2KeyMap = Map.empty\<rparr>"

text \<open>A user's map: the table at a given address is set to the given entries.\<close>

definition with_table :: "gide \<Rightarrow> addr \<Rightarrow> (KeySeq \<times> KeyFuns) list \<Rightarrow> gide" where
  "with_table st a es = st\<lparr>tables := (tables st)(a := es)\<rparr>"

subsection \<open>The loops of Update on a single table\<close>

text \<open>
  The three loops of \<^verbatim>\<open>Update\<close> that read or write the map, written on the table
  they work on: the purge (over the entries \<open>xs\<close>, deleting from \<open>t\<close>), the
  assignments of \<^verbatim>\<open>addkm\<close>, and the items of \<^verbatim>\<open>ToSlice\<close>. The lemmas below
  show that \<open>purge_nil\<close>, \<open>assign_all\<close> and \<open>ToSlice\<close> compute exactly these.
\<close>

definition purge_list :: "(KeySeq \<times> KeyFuns) list \<Rightarrow> (KeySeq \<times> KeyFuns) list \<Rightarrow> (KeySeq \<times> KeyFuns) list" where
  "purge_list xs t = fold (\<lambda>(key, v) t. if v = KeyFunNil then AList.delete key t else t) xs t"

definition assign_list :: "KeyMapItem list \<Rightarrow> (KeySeq \<times> KeyFuns) list \<Rightarrow> (KeySeq \<times> KeyFuns) list" where
  "assign_list items t = fold (\<lambda>ai t. AList.update (Keys ai) (Fun ai) t) items t"

definition to_items :: "(KeySeq \<times> KeyFuns) list \<Rightarrow> KeyMapItem list" where
  "to_items es = map (\<lambda>(key, f). \<lparr>Keys = key, Fun = f\<rparr>) es"

text \<open>
  The merge loop on the items that are left of the map: \<^verbatim>\<open>mi\<close> only ever moves
  forward, so the loop at index \<^verbatim>\<open>mi\<close> is this loop on the items from \<^verbatim>\<open>mi\<close> on
  (lemma \<open>merge_loop_drop\<close>).
\<close>

fun merge_rest :: "KeyMapItem list \<Rightarrow> KeyMapItem list \<Rightarrow> KeyMapItem list \<Rightarrow> KeyMapItem list" where
  "merge_rest [] ks acc = acc"
| "merge_rest (d # ds) [] acc = acc"
| "merge_rest (d # ds) (k # ks) acc =
     (if KeyFuns_val (Fun d) < KeyFuns_val (Fun k)
      then merge_rest ds (k # ks) (acc @ [not_set_item d])
      else merge_rest ds ks acc)"

definition fun_val :: "KeyMapItem \<Rightarrow> int" where
  "fun_val x = KeyFuns_val (Fun x)"

definition item_entry :: "KeyMapItem \<Rightarrow> KeySeq \<times> KeyFuns" where
  "item_entry ai = (Keys ai, Fun ai)"

subsection \<open>Example states\<close>

text \<open>
  User maps at address 6 of the state after \<^verbatim>\<open>init\<close>, where the default key map
  \<^verbatim>\<open>"MacEmacs"\<close> is the table at address 1. In \<open>init_gide\<close> itself the table at
  address 6 is empty: a new custom map.
\<close>

definition ex_single :: gide where
  "ex_single = with_table init_gide 6 [(\<lparr>Key1 = ''Control+N'', Key2 = ''''\<rparr>, KeyFunNextPanel)]"

definition ex_prev :: gide where
  "ex_prev = with_table init_gide 6 [(\<lparr>Key1 = ''Control+P'', Key2 = ''''\<rparr>, KeyFunPrevPanel)]"

definition ex_marker_key :: gide where
  "ex_marker_key = with_table init_gide 6
     [(\<lparr>Key1 = ''- Not Set - NextPanel'', Key2 = ''o''\<rparr>, KeyFunPrevPanel),
      (\<lparr>Key1 = ''Control+S'', Key2 = ''''\<rparr>, KeyFunBufSave)]"

definition ex_needs2 :: gide where
  "ex_needs2 = with_table init_gide 6 [(\<lparr>Key1 = ''Control+N'', Key2 = ''''\<rparr>, KeyFunNeeds2)]"

definition ex_stale :: gide where
  "ex_stale = with_table init_gide 6
     [(\<lparr>Key1 = ''Control+O'', Key2 = ''''\<rparr>, KeyFunNil),
      (\<lparr>Key1 = ''Control+P'', Key2 = ''''\<rparr>, KeyFunPrevPanel)]"

definition ex_conflict :: gide where
  "ex_conflict = with_table init_gide 6
     [(\<lparr>Key1 = ''Control+C'', Key2 = ''''\<rparr>, KeyFunBufSave),
      (\<lparr>Key1 = ''Control+C'', Key2 = ''Control+C''\<rparr>, KeyFunExecCmd)]"


section \<open>Properties of the encoding\<close>

lemma bytes_Split_not_Nil: "bytes_Split s c \<noteq> []"
  by (induction s) (auto split: list.splits)

lemma bytes_Split_no_sep: "c \<notin> set s \<Longrightarrow> bytes_Split s c = [s]"
  by (induction s) auto

lemma bytes_Split_sep:
  "c \<notin> set s \<Longrightarrow> bytes_Split (s @ c # t) c = s # bytes_Split t c"
  by (induction s) (auto split: list.splits)

lemma bytes_Split_length_sep:
  "c \<in> set s \<Longrightarrow> 2 \<le> length (bytes_Split s c)"
proof (induction s)
  case Nil
  then show ?case by simp
next
  case (Cons x xs)
  show ?case
  proof (cases "x = c")
    case True
    then show ?thesis
      using bytes_Split_not_Nil [of xs c] by (cases "bytes_Split xs c") auto
  next
    case False
    with Cons.prems have "c \<in> set xs" by simp
    from Cons.IH [OF this] False show ?thesis
      by (cases "bytes_Split xs c") auto
  qed
qed

text \<open>
  C6. For a key sequence whose two chords hold no semicolon, \<^verbatim>\<open>MarshalText\<close> gives
  exactly \<open>Key1\<close>, a semicolon, \<open>Key2\<close> (with no error), and \<^verbatim>\<open>UnmarshalText\<close> of
  these bytes, into any receiver, gives back the sequence (with no error).
\<close>

theorem KeySeq_text_round_trip:
  assumes "CHR '';'' \<notin> set k1" and "CHR '';'' \<notin> set k2"
  shows "MarshalText \<lparr>Key1 = k1, Key2 = k2\<rparr> = (k1 @ '';'' @ k2, None)
       \<and> UnmarshalText kf (fst (MarshalText \<lparr>Key1 = k1, Key2 = k2\<rparr>))
           = Some (\<lparr>Key1 = k1, Key2 = k2\<rparr>, None)"
proof -
  have m: "MarshalText \<lparr>Key1 = k1, Key2 = k2\<rparr> = (k1 @ '';'' @ k2, None)"
    by (simp add: MarshalText_def)
  have "bytes_Split (k1 @ CHR '';'' # k2) (CHR '';'') = [k1, k2]"
    using assms by (simp add: bytes_Split_sep bytes_Split_no_sep)
  then have "UnmarshalText kf (k1 @ '';'' @ k2) = Some (\<lparr>Key1 = k1, Key2 = k2\<rparr>, None)"
    by (simp add: UnmarshalText_def)
  with m show ?thesis by simp
qed

theorem KeySeq_text_round_trip_witness:
  "MarshalText \<lparr>Key1 = ''Control+X'', Key2 = ''o''\<rparr> = (''Control+X;o'', None)
   \<and> UnmarshalText \<lparr>Key1 = '''', Key2 = ''''\<rparr> ''Control+X;o''
       = Some (\<lparr>Key1 = ''Control+X'', Key2 = ''o''\<rparr>, None)
   \<and> MarshalText \<lparr>Key1 = ''Control+X'', Key2 = ''''\<rparr> = (''Control+X;'', None)"
  using KeySeq_text_round_trip [of "''Control+X''" "''o''" "\<lparr>Key1 = '''', Key2 = ''''\<rparr>"]
  by (simp add: MarshalText_def)

text \<open>
  C10. \<^verbatim>\<open>UnmarshalText\<close> has no path that returns an error: whenever it returns, the
  error is \<^verbatim>\<open>nil\<close>. It returns exactly when the input holds a semicolon; on every
  input without one the split has a single piece and reading \<^verbatim>\<open>bs[1]\<close> is out of
  range.
\<close>

theorem UnmarshalText_partial:
  "(CHR '';'' \<notin> set b \<longrightarrow>
      length (bytes_Split b (CHR '';'')) = 1 \<and> UnmarshalText kf b = None)
   \<and> (CHR '';'' \<in> set b \<longrightarrow> (\<exists>ks. UnmarshalText kf b = Some (ks, None)))
   \<and> (\<forall>r. UnmarshalText kf b = Some r \<longrightarrow> snd r = None)"
proof (intro conjI impI allI)
  assume "CHR '';'' \<notin> set b"
  then show "length (bytes_Split b (CHR '';'')) = 1" and "UnmarshalText kf b = None"
    by (simp_all add: bytes_Split_no_sep UnmarshalText_def)
next
  assume "CHR '';'' \<in> set b"
  from bytes_Split_length_sep [OF this] bytes_Split_not_Nil [of b "CHR '';''"]
  show "\<exists>ks. UnmarshalText kf b = Some (ks, None)"
    by (simp add: UnmarshalText_def Let_def)
next
  fix r assume "UnmarshalText kf b = Some r"
  then show "snd r = None"
    by (auto simp: UnmarshalText_def Let_def split: if_splits)
qed

theorem UnmarshalText_partial_witness:
  "UnmarshalText \<lparr>Key1 = '''', Key2 = ''''\<rparr> ''Control+X'' = None
   \<and> UnmarshalText \<lparr>Key1 = '''', Key2 = ''''\<rparr> '''' = None
   \<and> length (bytes_Split ''Control+X'' (CHR '';'')) = 1
   \<and> (\<exists>ks. UnmarshalText \<lparr>Key1 = '''', Key2 = ''''\<rparr> ''a;b;c'' = Some (ks, None))"
  using UnmarshalText_partial [of "''Control+X''" "\<lparr>Key1 = '''', Key2 = ''''\<rparr>"]
        UnmarshalText_partial [of "''''" "\<lparr>Key1 = '''', Key2 = ''''\<rparr>"]
        UnmarshalText_partial [of "''a;b;c''" "\<lparr>Key1 = '''', Key2 = ''''\<rparr>"]
  by simp

section \<open>Properties of the store and of the loops\<close>

lemma with_table_twice [simp]: "with_table (with_table st a t) a t' = with_table st a t'"
  by (simp add: with_table_def)

lemma tables_with_table [simp]: "tables (with_table st a t) = (tables st)(a := t)"
  by (simp add: with_table_def)

lemma with_table_same [simp]: "with_table st a (tables st a) = st"
  by (simp add: with_table_def)

lemma map_delete_map_at:
  "map_delete st (map_at a) k = with_table st a (AList.delete k (tables st a))"
  by (simp add: map_delete_def with_table_def)

lemma map_assign_map_at:
  "map_assign st (map_at a) k v = Some (with_table st a (AList.update k v (tables st a)))"
  by (simp add: map_assign_def with_table_def)

lemma fold_map_delete:
  "fold (\<lambda>(key, v) s. if v = KeyFunNil then map_delete s (map_at a) key else s) xs st
   = with_table st a (purge_list xs (tables st a))"
proof (induction xs arbitrary: st)
  case Nil
  show ?case by (simp add: purge_list_def)
next
  case (Cons x xs)
  obtain k v where x: "x = (k, v)" by (cases x)
  show ?case
    by (simp add: x Cons.IH map_delete_map_at purge_list_def)
qed

lemma purge_nil_map_at:
  "purge_nil st (map_at a) = with_table st a (purge_list (tables st a) (tables st a))"
  by (simp add: purge_nil_def entries_def fold_map_delete)

lemma purge_nil_nil_map: "purge_nil st nil_map = st"
  by (simp add: purge_nil_def entries_def)

lemma purge_list_filter:
  "purge_list xs t = filter (\<lambda>(k, v). (k, KeyFunNil) \<notin> set xs) t"
proof (induction xs arbitrary: t)
  case Nil
  show ?case by (simp add: purge_list_def)
next
  case (Cons x xs)
  obtain k v where x: "x = (k, v)" by (cases x)
  have step: "purge_list (x # xs) t
      = purge_list xs (if v = KeyFunNil then AList.delete k t else t)"
    by (simp add: purge_list_def x)
  show ?case
    unfolding step Cons.IH
    by (auto simp: x AList.delete_eq intro!: filter_cong)
qed

lemma purge_list_self:
  "distinct (map fst t) \<Longrightarrow> purge_list t t = filter (\<lambda>(k, v). v \<noteq> KeyFunNil) t"
  unfolding purge_list_filter
  by (rule filter_cong) (auto dest: eq_key_imp_eq_value)

lemma assign_all_map_at:
  "assign_all st (map_at a) items = Some (with_table st a (assign_list items (tables st a)))"
proof (induction items arbitrary: st)
  case Nil
  show ?case by (simp add: assign_list_def)
next
  case (Cons ai items)
  show ?case
    by (simp add: map_assign_map_at Cons.IH assign_list_def)
qed

lemma assign_all_nil_map:
  "assign_all st nil_map items = (if items = [] then Some st else None)"
  by (cases items) (simp_all add: map_assign_def)

lemma fold_append_items: "fold (\<lambda>dki a. a @ [dki]) xs acc = acc @ xs"
  by (induction xs arbitrary: acc) simp_all

lemma entries_with_table_same [simp]: "entries (with_table st a t) (map_at a) = t"
  by (simp add: entries_def)

lemma entries_with_table_other:
  "m \<noteq> map_at a \<Longrightarrow> entries (with_table st a t) m = entries st m"
  by (cases m) (auto simp: entries_def)

lemma AvailKeyMaps_with_table [simp]: "AvailKeyMaps (with_table st a t) = AvailKeyMaps st"
  by (simp add: with_table_def)

lemma DefaultKeyMap_with_table [simp]: "DefaultKeyMap (with_table st a t) = DefaultKeyMap st"
  by (simp add: with_table_def)

lemma ActiveKeyMap_with_table [simp]: "ActiveKeyMap (with_table st a t) = ActiveKeyMap st"
  by (simp add: with_table_def)

lemma Needs2KeyMap_with_table [simp]: "Needs2KeyMap (with_table st a t) = Needs2KeyMap st"
  by (simp add: with_table_def)

lemma AvailKeyMaps_purge_nil [simp]: "AvailKeyMaps (purge_nil st m) = AvailKeyMaps st"
  by (cases m) (simp_all add: purge_nil_map_at purge_nil_nil_map)

lemma DefaultKeyMap_purge_nil [simp]: "DefaultKeyMap (purge_nil st m) = DefaultKeyMap st"
  by (cases m) (simp_all add: purge_nil_map_at purge_nil_nil_map)

lemma Needs2KeyMap_purge_nil [simp]: "Needs2KeyMap (purge_nil st m) = Needs2KeyMap st"
  by (cases m) (simp_all add: purge_nil_map_at purge_nil_nil_map)

lemma ToSlice_Some: "ToSlice st (Some m) = Some (to_items (entries st m))"
  by (simp add: ToSlice_def to_items_def)

lemma to_items_Nil_iff [simp]: "to_items es = [] \<longleftrightarrow> es = []"
  by (simp add: to_items_def)

text \<open>Update on a map that is not nil, in terms of the tables alone.\<close>

lemma Update_map_at:
  assumes "fst (MapByName (AvailKeyMaps st) (DefaultKeyMap st)) = Some dkm"
  shows "Update st (Some (map_at a)) =
     (let st1 = purge_nil st (map_at a);
          t = entries st1 (map_at a);
          d = entries st1 dkm
      in if t = [] then Some (with_table st1 a (assign_list (to_items d) t))
         else let t' = assign_list (merge_loop (sort_by_Fun (to_items d)) (sort_by_Fun (to_items t)) 0 []) t
              in Some ((with_table st1 a t')\<lparr>Needs2KeyMap := collect_needs2 t'\<rparr>))"
proof -
  obtain i ok where mb: "MapByName (AvailKeyMaps st) (DefaultKeyMap st) = (Some dkm, i, ok)"
    using assms by (cases "MapByName (AvailKeyMaps st) (DefaultKeyMap st)") auto
  have tbl: "tables (purge_nil st (map_at a)) a = entries (purge_nil st (map_at a)) (map_at a)"
    by (simp add: entries_def)
  show ?thesis
    by (simp add: Update_def Let_def mb ToSlice_Some assign_all_map_at fold_append_items tbl)
qed

lemma Update_no_default:
  "fst (MapByName (AvailKeyMaps st) (DefaultKeyMap st)) = None \<Longrightarrow> Update st km = None"
  by (cases "MapByName (AvailKeyMaps st) (DefaultKeyMap st)")
     (auto simp: Update_def Let_def ToSlice_def split: option.splits)

lemma Update_nil_map:
  assumes "fst (MapByName (AvailKeyMaps st) (DefaultKeyMap st)) = Some dkm"
  shows "Update st (Some nil_map) = (if entries st dkm = [] then Some st else None)"
proof -
  obtain i ok where mb: "MapByName (AvailKeyMaps st) (DefaultKeyMap st) = (Some dkm, i, ok)"
    using assms by (cases "MapByName (AvailKeyMaps st) (DefaultKeyMap st)") auto
  show ?thesis
    by (simp add: Update_def Let_def mb ToSlice_Some purge_nil_nil_map assign_all_nil_map
        fold_append_items entries_def [of st nil_map])
qed

subsection \<open>Facts about the loops\<close>

lemma set_update_subset: "set (AList.update k v t) \<subseteq> insert (k, v) (set t)"
  by (induction t) auto

lemma update_keeps: "e \<in> set t \<Longrightarrow> fst e \<noteq> k \<Longrightarrow> e \<in> set (AList.update k v t)"
  by (induction t) auto

lemma set_assign_list:
  "set (assign_list items t) \<subseteq> set t \<union> (\<lambda>ai. (Keys ai, Fun ai)) ` set items"
proof (induction items arbitrary: t)
  case Nil
  show ?case by (simp add: assign_list_def)
next
  case (Cons ai items)
  have "assign_list (ai # items) t = assign_list items (AList.update (Keys ai) (Fun ai) t)"
    by (simp add: assign_list_def)
  with Cons.IH [of "AList.update (Keys ai) (Fun ai) t"]
       set_update_subset [of "Keys ai" "Fun ai" t]
  show ?case by auto
qed

lemma assign_list_keeps:
  "e \<in> set t \<Longrightarrow> fst e \<notin> Keys ` set items \<Longrightarrow> e \<in> set (assign_list items t)"
proof (induction items arbitrary: t)
  case Nil
  then show ?case by (simp add: assign_list_def)
next
  case (Cons ai items)
  have "assign_list (ai # items) t = assign_list items (AList.update (Keys ai) (Fun ai) t)"
    by (simp add: assign_list_def)
  moreover have "e \<in> set (AList.update (Keys ai) (Fun ai) t)"
    using Cons.prems by (intro update_keeps) auto
  ultimately show ?case
    using Cons.IH [of "AList.update (Keys ai) (Fun ai) t"] Cons.prems by simp
qed

lemma update_fresh: "k \<notin> fst ` set t \<Longrightarrow> AList.update k v t = t @ [(k, v)]"
  by (induction t) auto

lemma assign_list_distinct:
  "distinct (map fst (acc @ d)) \<Longrightarrow> assign_list (to_items d) acc = acc @ d"
proof (induction d arbitrary: acc)
  case Nil
  show ?case by (simp add: assign_list_def to_items_def)
next
  case (Cons e d)
  obtain k f where e: "e = (k, f)" by (cases e)
  from Cons.prems have fresh: "k \<notin> fst ` set acc" and dist: "distinct (map fst ((acc @ [(k, f)]) @ d))"
    by (auto simp: e)
  have "assign_list (to_items (e # d)) acc = assign_list (to_items d) (AList.update k f acc)"
    by (simp add: assign_list_def to_items_def e)
  also have "\<dots> = assign_list (to_items d) (acc @ [(k, f)])"
    by (simp add: update_fresh [OF fresh])
  also have "\<dots> = (acc @ [(k, f)]) @ d"
    by (rule Cons.IH [OF dist])
  finally show ?case by (simp add: e)
qed

lemma merge_loop_subset:
  "set (merge_loop ds ks mi acc) \<subseteq> set acc \<union> not_set_item ` set ds"
proof (induction ds arbitrary: mi acc)
  case Nil
  show ?case by simp
next
  case (Cons d ds)
  show ?case
    using Cons.IH [of mi "acc @ [not_set_item d]"] Cons.IH [of "mi + 1" acc]
    by (auto simp: Let_def)
qed

lemma set_sort_by_Fun [simp]: "set (sort_by_Fun xs) = set xs"
  by (simp add: sort_by_Fun_def)

lemma set_to_items: "set (to_items es) = (\<lambda>(k, f). \<lparr>Keys = k, Fun = f\<rparr>) ` set es"
  by (simp add: to_items_def)

lemma not_set_item_Fun [simp]: "Fun (not_set_item d) = Fun d"
  by (simp add: not_set_item_def Let_def)

lemma not_set_item_Keys:
  "Keys (not_set_item d) =
     \<lparr>Key1 = ''- Not Set - '' @ TrimPrefix (KeyFuns_String (Fun d)) ''KeyFun'', Key2 = Key2 (Keys d)\<rparr>"
  by (simp add: not_set_item_def Let_def)

lemma purge_list_no_Nil: "e \<in> set (purge_list t t) \<Longrightarrow> snd e \<noteq> KeyFunNil"
  by (cases e) (auto simp: purge_list_filter)

lemma purge_list_subset: "set (purge_list xs t) \<subseteq> set t"
  by (auto simp: purge_list_filter)

lemma entries_purge_nil_no_Nil:
  "e \<in> set (entries (purge_nil st m) m) \<Longrightarrow> snd e \<noteq> KeyFunNil"
  by (cases m) (auto simp: purge_nil_map_at purge_nil_nil_map entries_def dest: purge_list_no_Nil)

lemma entries_purge_nil_subset:
  "set (entries (purge_nil st m) m') \<subseteq> set (entries st m')"
proof (cases m)
  case nil_map
  then show ?thesis by (simp add: purge_nil_nil_map)
next
  case (map_at a)
  show ?thesis
  proof (cases "m' = map_at a")
    case True
    then show ?thesis
      using purge_list_subset [of "tables st a" "tables st a"]
      by (simp add: map_at purge_nil_map_at) (simp add: entries_def)
  next
    case False
    then show ?thesis by (simp add: map_at purge_nil_map_at entries_with_table_other)
  qed
qed

lemma collect_needs2_fold:
  "(fold (\<lambda>(key, _) n. if Key2 key \<noteq> [] then n(Key1 key \<mapsto> gi_KeyFunNil) else n) es n) c \<noteq> None
   \<longleftrightarrow> n c \<noteq> None \<or> (\<exists>e \<in> set es. Key1 (fst e) = c \<and> Key2 (fst e) \<noteq> [])"
  by (induction es arbitrary: n) (auto split: prod.splits)

lemma collect_needs2_iff:
  "collect_needs2 es c \<noteq> None \<longleftrightarrow> (\<exists>e \<in> set es. Key1 (fst e) = c \<and> Key2 (fst e) \<noteq> [])"
  unfolding collect_needs2_def by (subst collect_needs2_fold) simp

section \<open>Properties of the registry, of KeyFun and of Update\<close>

lemma MapByName_loop_none:
  "(\<forall>it \<in> set km. Name it \<noteq> name) \<Longrightarrow> MapByName_loop km i name = (None, -1, False)"
  by (induction km arbitrary: i) auto

lemma MapByName_loop_first:
  "j < length km \<Longrightarrow> Name (km ! j) = name \<Longrightarrow> (\<forall>k < j. Name (km ! k) \<noteq> name)
   \<Longrightarrow> MapByName_loop km i name = (Some (Map (km ! j)), i + int j, True)"
proof (induction km arbitrary: i j)
  case Nil
  then show ?case by simp
next
  case (Cons it rest)
  show ?case
  proof (cases j)
    case 0
    with Cons.prems show ?thesis by simp
  next
    case (Suc j')
    with Cons.prems have "Name it \<noteq> name" by auto
    moreover have "MapByName_loop rest (i + 1) name = (Some (Map (rest ! j')), (i + 1) + int j', True)"
    proof (rule Cons.IH)
      show "j' < length rest" using Cons.prems Suc by simp
      show "Name (rest ! j') = name" using Cons.prems Suc by simp
      show "\<forall>k<j'. Name (rest ! k) \<noteq> name"
      proof (intro allI impI)
        fix k assume "k < j'"
        then have "Suc k < j" using Suc by simp
        with Cons.prems have "Name ((it # rest) ! Suc k) \<noteq> name" by blast
        then show "Name (rest ! k) \<noteq> name" by simp
      qed
    qed
    ultimately show ?thesis using Suc by simp
  qed
qed

text \<open>
  C9. When no item of \<^verbatim>\<open>AvailKeyMaps\<close> has the name, \<^verbatim>\<open>SetActiveKeyMapName\<close>
  returns with the state as it was: the active map and every table are unchanged. When
  item \<open>j\<close> is the first item of that name, \<^verbatim>\<open>Update\<close> runs on the map of item
  \<open>j\<close> and, when it returns, \<^verbatim>\<open>ActiveKeyMap\<close> points to that map (a panic of
  \<^verbatim>\<open>Update\<close> is a panic of the call).
\<close>

theorem SetActiveKeyMapName_by_name:
  "((\<forall>it \<in> set (AvailKeyMaps st). Name it \<noteq> name) \<longrightarrow> SetActiveKeyMapName st name = Some st)
   \<and> (\<forall>j. j < length (AvailKeyMaps st) \<and> Name (AvailKeyMaps st ! j) = name
            \<and> (\<forall>k < j. Name (AvailKeyMaps st ! k) \<noteq> name)
         \<longrightarrow> SetActiveKeyMapName st name =
               (case Update st (Some (Map (AvailKeyMaps st ! j))) of
                  None \<Rightarrow> None
                | Some st' \<Rightarrow> Some (st'\<lparr>ActiveKeyMap := Some (Map (AvailKeyMaps st ! j))\<rparr>)))"
proof (intro conjI impI allI)
  assume "\<forall>it \<in> set (AvailKeyMaps st). Name it \<noteq> name"
  then show "SetActiveKeyMapName st name = Some st"
    by (simp add: SetActiveKeyMapName_def MapByName_def MapByName_loop_none)
next
  fix j
  assume "j < length (AvailKeyMaps st) \<and> Name (AvailKeyMaps st ! j) = name
            \<and> (\<forall>k < j. Name (AvailKeyMaps st ! k) \<noteq> name)"
  then have "MapByName (AvailKeyMaps st) name = (Some (Map (AvailKeyMaps st ! j)), 0 + int j, True)"
    unfolding MapByName_def by (intro MapByName_loop_first) auto
  then show "SetActiveKeyMapName st name =
               (case Update st (Some (Map (AvailKeyMaps st ! j))) of
                  None \<Rightarrow> None
                | Some st' \<Rightarrow> Some (st'\<lparr>ActiveKeyMap := Some (Map (AvailKeyMaps st ! j))\<rparr>))"
    by (simp add: SetActiveKeyMapName_def SetActiveKeyMap_def)
qed

text \<open>
  C4. In a state whose \<^verbatim>\<open>Needs2KeyMap\<close> is what the rebuilding loop of
  \<^verbatim>\<open>Update\<close> computes from the active map, a non-empty first chord that begins a
  sequence of the map with a non-empty second chord resolves, alone, to
  \<^verbatim>\<open>KeyFunNeeds2\<close>, whatever else the map binds: a binding of the single chord is
  never reached.
\<close>

theorem KeyFun_prefix_first:
  assumes "ActiveKeyMap st = Some m"
      and "Needs2KeyMap st = collect_needs2 (entries st m)"
      and "key1 \<noteq> []" and "key2 \<noteq> []"
      and "(\<lparr>Key1 = key1, Key2 = key2\<rparr>, f) \<in> set (entries st m)"
  shows "KeyFun st key1 [] = Some KeyFunNeeds2"
proof -
  have "\<exists>e \<in> set (entries st m). Key1 (fst e) = key1 \<and> Key2 (fst e) \<noteq> []"
    using assms(4,5) by force
  then have "collect_needs2 (entries st m) key1 \<noteq> None"
    by (simp only: collect_needs2_iff)
  then show ?thesis
    using assms(2,3) by (simp add: KeyFun_def)
qed

lemma Update_rebuilds_index:
  assumes "fst (MapByName (AvailKeyMaps st) (DefaultKeyMap st)) = Some dkm"
      and "entries (purge_nil st (map_at a)) (map_at a) \<noteq> []"
  shows "\<exists>st'. Update st (Some (map_at a)) = Some st'
           \<and> Needs2KeyMap st' = collect_needs2 (entries st' (map_at a))"
  using assms(2) by (simp add: Update_map_at [OF assms(1)] Let_def with_table_def entries_def)

text \<open>
  In that branch the rebuilt index is exact: a chord is in \<^verbatim>\<open>Needs2KeyMap\<close> after
  \<^verbatim>\<open>Update\<close> if and only if it is the first chord of an entry of the map whose
  second chord is not empty.
\<close>

lemma Update_index_exact:
  assumes "fst (MapByName (AvailKeyMaps st) (DefaultKeyMap st)) = Some dkm"
      and "entries (purge_nil st (map_at a)) (map_at a) \<noteq> []"
  shows "\<exists>st'. Update st (Some (map_at a)) = Some st'
           \<and> (\<forall>c. Needs2KeyMap st' c \<noteq> None \<longleftrightarrow>
                 (\<exists>e \<in> set (entries st' (map_at a)). Key1 (fst e) = c \<and> Key2 (fst e) \<noteq> []))"
proof -
  from Update_rebuilds_index [OF assms] obtain st' where
    u: "Update st (Some (map_at a)) = Some st'"
    and n: "Needs2KeyMap st' = collect_needs2 (entries st' (map_at a))"
    by blast
  have "Needs2KeyMap st' c \<noteq> None \<longleftrightarrow>
          (\<exists>e \<in> set (entries st' (map_at a)). Key1 (fst e) = c \<and> Key2 (fst e) \<noteq> [])" for c
    unfolding n by (rule collect_needs2_iff)
  with u show ?thesis by blast
qed

text \<open>
  C5, as amended. When the map is empty once purged and is not \<^verbatim>\<open>nil\<close>, and the
  default key map exists, \<^verbatim>\<open>Update\<close> returns and the map then holds exactly the
  entries of the default map: every entry, so as many as the default map has entries
  and several for a function that the default map binds several times. The default map
  itself is unchanged. The keys of the default table are distinct, as the keys of a Go
  map are.
\<close>

theorem Update_bootstrap:
  assumes dflt: "fst (MapByName (AvailKeyMaps st) (DefaultKeyMap st)) = Some dkm"
      and empty: "entries (purge_nil st (map_at a)) (map_at a) = []"
      and dist: "distinct (map fst (entries st dkm))"
  shows "\<exists>st'. Update st (Some (map_at a)) = Some st'
           \<and> entries st' (map_at a) = entries st' dkm
           \<and> length (entries st' (map_at a)) = length (entries st' dkm)
           \<and> (dkm \<noteq> map_at a \<longrightarrow> entries st' dkm = entries st dkm)"
proof (cases "dkm = map_at a")
  case True
  have "assign_list (to_items []) [] = []"
    by (simp add: assign_list_def to_items_def)
  then show ?thesis
    using empty by (simp add: Update_map_at [OF dflt] Let_def True)
next
  case False
  let ?st1 = "purge_nil st (map_at a)"
  have d: "entries ?st1 dkm = entries st dkm"
    using False by (simp add: purge_nil_map_at entries_with_table_other)
  have "assign_list (to_items (entries st dkm)) [] = [] @ entries st dkm"
    by (rule assign_list_distinct) (simp add: dist)
  then show ?thesis
    using empty False by (simp add: Update_map_at [OF dflt] Let_def d entries_with_table_other)
qed

text \<open>
  In the branch for an empty map every function that the default map binds is bound
  afterwards.
\<close>

lemma Update_empty_complete:
  assumes dflt: "fst (MapByName (AvailKeyMaps st) (DefaultKeyMap st)) = Some dkm"
      and empty: "entries (purge_nil st (map_at a)) (map_at a) = []"
      and dist: "distinct (map fst (entries st dkm))"
      and other: "dkm \<noteq> map_at a"
  shows "\<exists>st'. Update st (Some (map_at a)) = Some st'
           \<and> snd ` set (entries st dkm) \<subseteq> snd ` set (entries st' (map_at a))"
proof -
  let ?st1 = "purge_nil st (map_at a)"
  have d: "entries ?st1 dkm = entries st dkm"
    using other by (simp add: purge_nil_map_at entries_with_table_other)
  have "assign_list (to_items (entries st dkm)) [] = [] @ entries st dkm"
    by (rule assign_list_distinct) (simp add: dist)
  then show ?thesis
    using empty by (simp add: Update_map_at [OF dflt] Let_def d)
qed

text \<open>
  C2, as amended. When the map is not empty once purged and the default key map exists,
  \<^verbatim>\<open>Update\<close> returns, and every entry of the map afterwards is an entry the purged
  map had or a marker entry for a function that the default map binds: its first chord
  is \<^verbatim>\<open>"- Not Set - "\<close> followed by the function's name without \<^verbatim>\<open>KeyFun\<close>,
  and it is bound to that function. The first chord of a default binding is not what is
  copied. The entries of the purged map whose first chord does not start with the marker
  are all kept.
\<close>

theorem Update_fills_with_markers:
  assumes dflt: "fst (MapByName (AvailKeyMaps st) (DefaultKeyMap st)) = Some dkm"
      and nonempty: "entries (purge_nil st (map_at a)) (map_at a) \<noteq> []"
  shows "\<exists>st'. Update st (Some (map_at a)) = Some st'
     \<and> (\<forall>e \<in> set (entries st' (map_at a)).
           e \<in> set (entries (purge_nil st (map_at a)) (map_at a))
         \<or> (\<exists>d \<in> set (entries (purge_nil st (map_at a)) dkm).
               Key1 (fst e) = ''- Not Set - '' @ TrimPrefix (KeyFuns_String (snd d)) ''KeyFun''
             \<and> snd e = snd d))
     \<and> (\<forall>e \<in> set (entries (purge_nil st (map_at a)) (map_at a)).
           take 12 (Key1 (fst e)) \<noteq> ''- Not Set - '' \<longrightarrow> e \<in> set (entries st' (map_at a)))"
proof -
  let ?st1 = "purge_nil st (map_at a)"
  let ?t = "entries ?st1 (map_at a)"
  let ?d = "entries ?st1 dkm"
  let ?add = "merge_loop (sort_by_Fun (to_items ?d)) (sort_by_Fun (to_items ?t)) 0 []"
  let ?t' = "assign_list ?add ?t"
  let ?st' = "(with_table ?st1 a ?t')\<lparr>Needs2KeyMap := collect_needs2 ?t'\<rparr>"
  have upd: "Update st (Some (map_at a)) = Some ?st'"
    using nonempty by (simp add: Update_map_at [OF dflt] Let_def)
  have res: "entries ?st' (map_at a) = ?t'"
    by (simp add: entries_def)
  have add: "set ?add \<subseteq> not_set_item ` set (to_items ?d)"
    using merge_loop_subset [of "sort_by_Fun (to_items ?d)" "sort_by_Fun (to_items ?t)" 0 "[]"]
    by simp
  have 1: "e \<in> set ?t \<or> (\<exists>d \<in> set ?d.
               Key1 (fst e) = ''- Not Set - '' @ TrimPrefix (KeyFuns_String (snd d)) ''KeyFun''
             \<and> snd e = snd d)" if e: "e \<in> set ?t'" for e
  proof (cases "e \<in> set ?t")
    case True
    then show ?thesis ..
  next
    case False
    with e set_assign_list [of ?add ?t] obtain ai where ai: "ai \<in> set ?add" "e = (Keys ai, Fun ai)"
      by auto
    with add obtain d where d: "d \<in> set ?d" "ai = not_set_item \<lparr>Keys = fst d, Fun = snd d\<rparr>"
      by (auto simp: set_to_items)
    have "Key1 (fst e) = ''- Not Set - '' @ TrimPrefix (KeyFuns_String (snd d)) ''KeyFun''
        \<and> snd e = snd d"
      by (simp add: ai(2) d(2) not_set_item_Keys)
    with d(1) show ?thesis by blast
  qed
  have 2: "e \<in> set ?t'" if e: "e \<in> set ?t" and nm: "take 12 (Key1 (fst e)) \<noteq> ''- Not Set - ''" for e
  proof (rule assign_list_keeps [OF e])
    show "fst e \<notin> Keys ` set ?add"
    proof
      assume "fst e \<in> Keys ` set ?add"
      with add obtain d where "fst e = Keys (not_set_item d)" by auto
      then have "take 12 (Key1 (fst e)) = ''- Not Set - ''"
        by (simp add: not_set_item_Keys)
      with nm show False by contradiction
    qed
  qed
  from upd res 1 2 show ?thesis by (intro exI [of _ ?st']) (simp only: simp_thms, blast)
qed

text \<open>
  C8, as amended. When the entries of the default key map, as \<^verbatim>\<open>Update\<close> reads them
  after the purge, bind no chord to \<^verbatim>\<open>KeyFunNil\<close>, then after \<^verbatim>\<open>Update\<close> no
  entry of the map is bound to \<^verbatim>\<open>KeyFunNil\<close>. Nothing is said of
  \<^verbatim>\<open>KeyFunNeeds2\<close>: the purge removes \<^verbatim>\<open>KeyFunNil\<close> only.
\<close>

theorem Update_no_Nil:
  assumes upd: "Update st (Some m) = Some st'"
      and dflt: "fst (MapByName (AvailKeyMaps st) (DefaultKeyMap st)) = Some dkm"
      and noNil: "\<forall>d \<in> set (entries (purge_nil st m) dkm). snd d \<noteq> KeyFunNil"
  shows "\<forall>e \<in> set (entries st' m). snd e \<noteq> KeyFunNil"
proof (cases m)
  case nil_map
  then show ?thesis by (simp add: entries_def)
next
  case (map_at a)
  let ?st1 = "purge_nil st (map_at a)"
  let ?t = "entries ?st1 (map_at a)"
  let ?d = "entries ?st1 dkm"
  have t: "\<forall>e \<in> set ?t. snd e \<noteq> KeyFunNil"
    using entries_purge_nil_no_Nil [of _ st "map_at a"] by blast
  have items: "\<forall>e \<in> set (assign_list its ?t). snd e \<noteq> KeyFunNil"
    if "\<forall>ai \<in> set its. Fun ai \<noteq> KeyFunNil" for its
    using set_assign_list [of its ?t] t that by fastforce
  have dI: "\<forall>ai \<in> set (to_items ?d). Fun ai \<noteq> KeyFunNil"
    using noNil by (auto simp: set_to_items map_at)
  show ?thesis
  proof (cases "?t = []")
    case True
    with upd have "entries st' (map_at a) = assign_list (to_items ?d) ?t"
      by (auto simp: map_at Update_map_at [OF dflt] Let_def)
    with items [OF dI] show ?thesis by (simp add: map_at)
  next
    case False
    let ?add = "merge_loop (sort_by_Fun (to_items ?d)) (sort_by_Fun (to_items ?t)) 0 []"
    have "set ?add \<subseteq> not_set_item ` set (to_items ?d)"
      using merge_loop_subset [of "sort_by_Fun (to_items ?d)" "sort_by_Fun (to_items ?t)" 0 "[]"]
      by simp
    with dI have aI: "\<forall>ai \<in> set ?add. Fun ai \<noteq> KeyFunNil" by auto
    from upd False have "entries st' (map_at a) = assign_list ?add ?t"
      by (auto simp: map_at Update_map_at [OF dflt] Let_def entries_def)
    with items [OF aI] show ?thesis by (simp add: map_at)
  qed
qed

section \<open>A second Update\<close>

text \<open>
  What a second \<^verbatim>\<open>Update\<close> does to the result of a first one. The merge loop of the
  second call meets, for every marker item the first call added, an item of the same
  function in the map, so it adds nothing as long as the marker entries of the first
  call are all in the map: when no marker key is a key of the map already and no two
  default entries give the same marker key.
\<close>

lemma merge_loop_drop: "merge_loop ds ks mi acc = merge_rest ds (drop mi ks) acc"
proof (induction ds arbitrary: mi acc)
  case Nil
  show ?case by simp
next
  case (Cons d ds)
  show ?case
  proof (cases "mi < length ks")
    case False
    then show ?thesis by simp
  next
    case True
    then have dr: "drop mi ks = ks ! mi # drop (Suc mi) ks"
      by (simp add: Cons_nth_drop_Suc)
    show ?thesis
      using True by (simp add: dr Cons.IH Let_def)
  qed
qed

lemma merge_rest_acc: "merge_rest ds ks acc = acc @ merge_rest ds ks []"
proof (induction ds arbitrary: ks acc)
  case Nil
  show ?case by simp
next
  case (Cons d ds)
  show ?case
  proof (cases ks)
    case Nil
    then show ?thesis by simp
  next
    case (Cons k ks1)
    show ?thesis
      using Cons.IH [of "k # ks1" "acc @ [not_set_item d]"] Cons.IH [of "k # ks1" "[not_set_item d]"]
            Cons.IH [of ks1 acc]
      by (simp add: Cons)
  qed
qed

lemma fun_val_not_set_item [simp]: "fun_val (not_set_item d) = fun_val d"
  by (simp add: fun_val_def)

lemma merge_rest_subset: "set (merge_rest ds ks []) \<subseteq> not_set_item ` set ds"
  using merge_loop_subset [of ds ks 0 "[]"] by (simp add: merge_loop_drop)

text \<open>The second pass: over a map that holds the items of the first pass, nothing is added.\<close>

lemma merge_rest_second_pass:
  assumes "sorted (map fun_val ds)" and "sorted (map fun_val ks)" and "sorted (map fun_val ks')"
      and "mset (map fun_val ks') = mset (map fun_val ks) + mset (map fun_val (merge_rest ds ks []))"
  shows "merge_rest ds ks' acc = acc"
  using assms
proof (induction ds arbitrary: ks ks')
  case Nil
  show ?case by simp
next
  case (Cons d ds)
  have sds: "sorted (map fun_val ds)" and dle: "\<forall>x \<in> set ds. fun_val d \<le> fun_val x"
    using Cons.prems(1) by auto
  have adds_ge: "\<forall>x \<in> set (merge_rest ds ks0 []). fun_val d \<le> fun_val x" for ks0
    using merge_rest_subset [of ds ks0] dle by auto
  show ?case
  proof (cases ks)
    case Nil
    with Cons.prems(4) have "ks' = []" by simp
    then show ?thesis by simp
  next
    case (Cons k ks1)
    have sks1: "sorted (map fun_val ks1)" and kle: "\<forall>x \<in> set ks1. fun_val k \<le> fun_val x"
      using Cons.prems(2) Cons by auto
    show ?thesis
    proof (cases "fun_val d < fun_val k")
      case True
      have first: "merge_rest (d # ds) ks [] = not_set_item d # merge_rest ds ks []"
        using True merge_rest_acc [of ds "k # ks1" "[not_set_item d]"]
        by (simp add: Cons fun_val_def)
      from Cons.prems(4) have m: "mset (map fun_val ks') =
          add_mset (fun_val d) (mset (map fun_val ks) + mset (map fun_val (merge_rest ds ks [])))"
        by (simp add: first)
      then have "ks' \<noteq> []" by auto
      then obtain k' ks1' where ks': "ks' = k' # ks1'" by (cases ks') auto
      have "fun_val d \<in> set (map fun_val ks')"
        using m by (metis set_mset_mset union_single_eq_member)
      then have le: "fun_val k' \<le> fun_val d"
        using Cons.prems(3) by (auto simp: ks')
      have "fun_val k' \<in># mset (map fun_val ks')"
        by (simp add: ks')
      then have "fun_val k' \<in># add_mset (fun_val d) (mset (map fun_val ks) + mset (map fun_val (merge_rest ds ks [])))"
        unfolding m .
      then have "fun_val d \<le> fun_val k'"
        using True kle adds_ge [of ks] by (auto simp: Cons)
      with le have eq: "fun_val k' = fun_val d" by simp
      have m': "mset (map fun_val ks1') = mset (map fun_val ks) + mset (map fun_val (merge_rest ds ks []))"
        using m by (simp add: ks' eq)
      have "merge_rest ds ks1' acc = acc"
        using sds Cons.prems(2) Cons.prems(3) m' by (intro Cons.IH [of ks ks1']) (auto simp: ks')
      then show ?thesis
        using eq by (simp add: ks' fun_val_def)
    next
      case False
      have first: "merge_rest (d # ds) ks [] = merge_rest ds ks1 []"
        using False by (simp add: Cons fun_val_def)
      have m: "mset (map fun_val ks') =
          add_mset (fun_val k) (mset (map fun_val ks1) + mset (map fun_val (merge_rest ds ks1 [])))"
        using Cons.prems(4) unfolding first by (simp add: Cons)
      then have "ks' \<noteq> []" by auto
      then obtain k' ks1' where ks': "ks' = k' # ks1'" by (cases ks') auto
      have "fun_val k \<in> set (map fun_val ks')"
        using m by (metis set_mset_mset union_single_eq_member)
      then have le: "fun_val k' \<le> fun_val k"
        using Cons.prems(3) by (auto simp: ks')
      have "fun_val k' \<in># mset (map fun_val ks')"
        by (simp add: ks')
      then have "fun_val k' \<in># add_mset (fun_val k) (mset (map fun_val ks1) + mset (map fun_val (merge_rest ds ks1 [])))"
        unfolding m .
      then have "fun_val k \<le> fun_val k'"
        using False kle adds_ge [of ks1] by auto
      with le have eq: "fun_val k' = fun_val k" by simp
      have m': "mset (map fun_val ks1') = mset (map fun_val ks1) + mset (map fun_val (merge_rest ds ks1 []))"
        using m by (simp add: ks' eq)
      have "merge_rest ds ks1' acc = acc"
        using sds sks1 Cons.prems(3) m' by (intro Cons.IH [of ks1 ks1']) (auto simp: ks')
      then show ?thesis
        using eq False by (simp add: ks' fun_val_def)
    qed
  qed
qed

lemma to_items_item_entry: "to_items (map item_entry xs) = xs"
  by (induction xs) (simp_all add: to_items_def item_entry_def)

lemma map_fst_item_entry: "map fst (map item_entry xs) = map Keys xs"
  by (simp add: item_entry_def)

lemma distinct_merge_rest:
  "distinct (map (\<lambda>d. Keys (not_set_item d)) ds) \<Longrightarrow> distinct (map Keys (merge_rest ds ks []))"
proof (induction ds arbitrary: ks)
  case Nil
  show ?case by simp
next
  case (Cons d ds)
  from Cons.prems have fresh: "Keys (not_set_item d) \<notin> (\<lambda>d. Keys (not_set_item d)) ` set ds"
    and rest: "distinct (map (\<lambda>d. Keys (not_set_item d)) ds)"
    by auto
  show ?case
  proof (cases ks)
    case Nil
    then show ?thesis by simp
  next
    case (Cons k ks1)
    show ?thesis
    proof (cases "KeyFuns_val (Fun d) < KeyFuns_val (Fun k)")
      case True
      have "merge_rest (d # ds) ks [] = not_set_item d # merge_rest ds ks []"
        using True merge_rest_acc [of ds "k # ks1" "[not_set_item d]"] by (simp add: Cons)
      moreover have "Keys (not_set_item d) \<notin> Keys ` set (merge_rest ds ks [])"
        using fresh merge_rest_subset [of ds ks] by auto
      ultimately show ?thesis
        using Cons.IH [OF rest, of ks] by simp
    next
      case False
      then show ?thesis
        using Cons.IH [OF rest, of ks1] by (simp add: Cons)
    qed
  qed
qed

lemma sorted_sort_by_Fun: "sorted (map fun_val (sort_by_Fun xs))"
proof -
  have "fun_val = (\<lambda>it. KeyFuns_val (Fun it))"
    by (simp add: fun_eq_iff fun_val_def)
  then show ?thesis
    by (simp add: sort_by_Fun_def sorted_sort_key)
qed

lemma mset_sort_by_Fun [simp]: "mset (sort_by_Fun xs) = mset xs"
  by (simp add: sort_by_Fun_def)

lemma distinct_map_sort_by_Fun:
  "distinct (map f (sort_by_Fun xs)) \<longleftrightarrow> distinct (map f xs)"
proof -
  have "mset (map f (sort_by_Fun xs)) = mset (map f xs)"
    by simp
  then show ?thesis
    by (rule mset_eq_imp_distinct_iff)
qed

lemma purge_list_id: "(\<forall>e \<in> set t. snd e \<noteq> KeyFunNil) \<Longrightarrow> purge_list t t = t"
  unfolding purge_list_filter by (rule filter_True) auto

lemma distinct_purge_list: "distinct (map fst t) \<Longrightarrow> distinct (map fst (purge_list xs t))"
  unfolding purge_list_filter by (rule distinct_map_filter)

lemma state_same:
  "tables s a = t \<Longrightarrow> Needs2KeyMap s = n \<Longrightarrow> (with_table s a t)\<lparr>Needs2KeyMap := n\<rparr> = s"
  by auto

text \<open>
  Without a chord that starts with the marker in the map, and with a default map apart
  from it, free of \<^verbatim>\<open>KeyFunNil\<close> and whose entries give pairwise different marker
  keys, a second \<^verbatim>\<open>Update\<close> changes nothing at all.
\<close>

lemma Update_twice_without_marker_chords:
  assumes dflt: "fst (MapByName (AvailKeyMaps st) (DefaultKeyMap st)) = Some dkm"
      and other: "dkm \<noteq> map_at a"
      and nonempty: "entries (purge_nil st (map_at a)) (map_at a) \<noteq> []"
      and distk: "distinct (map fst (entries st (map_at a)))"
      and noNil: "\<forall>d \<in> set (entries st dkm). snd d \<noteq> KeyFunNil"
      and nomark: "\<forall>e \<in> set (entries st (map_at a)). take 12 (Key1 (fst e)) \<noteq> ''- Not Set - ''"
      and distm: "distinct (map (\<lambda>d. Keys (not_set_item d)) (to_items (entries st dkm)))"
  shows "\<exists>st1. Update st (Some (map_at a)) = Some st1 \<and> Update st1 (Some (map_at a)) = Some st1"
proof -
  define st0 where "st0 = purge_nil st (map_at a)"
  define t where "t = entries st0 (map_at a)"
  define d where "d = entries st dkm"
  define D where "D = sort_by_Fun (to_items d)"
  define K where "K = sort_by_Fun (to_items t)"
  define A where "A = merge_rest D K []"
  define t' where "t' = t @ map item_entry A"
  define st1 where "st1 = (with_table st0 a t')\<lparr>Needs2KeyMap := collect_needs2 t'\<rparr>"
  have d0: "entries st0 dkm = d"
    using other by (simp add: st0_def d_def purge_nil_map_at entries_with_table_other)
  have t_eq: "t = purge_list (entries st (map_at a)) (entries st (map_at a))"
    by (simp add: t_def st0_def purge_nil_map_at) (simp add: entries_def)
  have t_sub: "set t \<subseteq> set (entries st (map_at a))"
    unfolding t_eq by (rule purge_list_subset)
  have t_dist: "distinct (map fst t)"
    unfolding t_eq using distk by (rule distinct_purge_list)
  have t_noNil: "\<forall>e \<in> set t. snd e \<noteq> KeyFunNil"
    unfolding t_def st0_def using entries_purge_nil_no_Nil [of _ st "map_at a"] by blast
  have t_ne: "t \<noteq> []"
    using nonempty by (simp add: t_def st0_def)
  have A_sub: "set A \<subseteq> not_set_item ` set (to_items d)"
    unfolding A_def using merge_rest_subset [of D K] by (simp add: D_def)
  have A_dist: "distinct (map Keys A)"
    unfolding A_def using distm
    by (intro distinct_merge_rest) (simp add: D_def d_def distinct_map_sort_by_Fun)
  have A_mark: "take 12 (Key1 (Keys ai)) = ''- Not Set - ''" if "ai \<in> set A" for ai
    using that A_sub by (auto simp: not_set_item_Keys)
  have A_noNil: "Fun ai \<noteq> KeyFunNil" if "ai \<in> set A" for ai
  proof -
    from that A_sub obtain x where x: "x \<in> set (to_items d)" "ai = not_set_item x"
      by blast
    then obtain e where "e \<in> set d" "Fun x = snd e"
      by (auto simp: set_to_items)
    with noNil x(2) show ?thesis by (simp add: d_def)
  qed
  have disj: "set (map fst t) \<inter> set (map Keys A) = {}"
  proof (rule ccontr)
    assume "set (map fst t) \<inter> set (map Keys A) \<noteq> {}"
    then obtain e ai where e: "e \<in> set t" and ai: "ai \<in> set A" and eq: "fst e = Keys ai"
      by auto
    from e t_sub have "e \<in> set (entries st (map_at a))" by blast
    with nomark have "take 12 (Key1 (fst e)) \<noteq> ''- Not Set - ''" by blast
    moreover have "take 12 (Key1 (fst e)) = ''- Not Set - ''"
      unfolding eq by (rule A_mark [OF ai])
    ultimately show False by contradiction
  qed
  have dist_all: "distinct (map fst (t @ map item_entry A))"
    unfolding map_append map_fst_item_entry distinct_append
    using t_dist A_dist disj by blast
  have assign: "assign_list A t = t'"
    unfolding t'_def by (rule assign_list_distinct [OF dist_all, unfolded to_items_item_entry])
  have first: "Update st (Some (map_at a)) = Some st1"
    unfolding Update_map_at [OF dflt] Let_def st0_def [symmetric] t_def [symmetric] d0
    using t_ne by (simp add: merge_loop_drop D_def [symmetric] K_def [symmetric]
        A_def [symmetric] assign st1_def)
  have dflt1: "fst (MapByName (AvailKeyMaps st1) (DefaultKeyMap st1)) = Some dkm"
    using dflt by (simp add: st1_def st0_def)
  have tab1: "tables st1 a = t'"
    by (simp add: st1_def)
  have n1: "Needs2KeyMap st1 = collect_needs2 t'"
    by (simp add: st1_def)
  have t'_noNil: "\<forall>e \<in> set t'. snd e \<noteq> KeyFunNil"
    using t_noNil A_noNil by (auto simp: item_entry_def t'_def)
  have "purge_nil st1 (map_at a) = with_table st1 a (purge_list (tables st1 a) (tables st1 a))"
    by (rule purge_nil_map_at)
  also have "\<dots> = with_table st1 a (tables st1 a)"
    using purge_list_id [OF t'_noNil] by (simp add: tab1)
  also have "\<dots> = st1"
    by (rule with_table_same)
  finally have purge1: "purge_nil st1 (map_at a) = st1" .
  have e1: "entries st1 (map_at a) = t'"
    by (simp add: entries_def tab1)
  have d1: "entries st1 dkm = d"
    using other d0 by (cases dkm) (auto simp: entries_def st1_def)
  have t'_ne: "t' \<noteq> []"
    using t_ne by (simp add: t'_def)
  have second_adds: "merge_rest D (sort_by_Fun (to_items t')) [] = []"
  proof (rule merge_rest_second_pass [where ks = K])
    show "sorted (map fun_val D)" "sorted (map fun_val K)"
         "sorted (map fun_val (sort_by_Fun (to_items t')))"
      unfolding D_def K_def by (rule sorted_sort_by_Fun)+
    have "to_items t' = to_items t @ A"
      using to_items_item_entry [of A] by (simp add: to_items_def t'_def)
    then show "mset (map fun_val (sort_by_Fun (to_items t'))) =
        mset (map fun_val K) + mset (map fun_val (merge_rest D K []))"
      by (simp add: K_def A_def)
  qed
  have "Update st1 (Some (map_at a)) = Some st1"
    unfolding Update_map_at [OF dflt1] Let_def purge1 e1 d1
    using t'_ne
    by (simp add: merge_loop_drop D_def [symmetric] second_adds assign_list_def
        state_same [OF tab1 n1])
  with first show ?thesis by blast
qed

lemma to_items_Nil: "to_items [] = []"
  by (simp add: to_items_def)

lemma merge_rest_same_funs:
  "map fun_val ds = map fun_val ks \<Longrightarrow> merge_rest ds ks acc = acc"
proof (induction ds arbitrary: ks)
  case Nil
  show ?case by simp
next
  case (Cons d ds)
  then obtain k ks1 where ks: "ks = k # ks1" and eq: "fun_val d = fun_val k"
    and rest: "map fun_val ds = map fun_val ks1"
    by (cases ks) auto
  have "merge_rest ds ks1 acc = acc"
    by (rule Cons.IH [OF rest])
  moreover have "\<not> KeyFuns_val (Fun d) < KeyFuns_val (Fun k)"
    using eq by (simp add: fun_val_def)
  ultimately show ?case
    by (simp add: ks)
qed

text \<open>
  After the branch for an empty map a second \<^verbatim>\<open>Update\<close> leaves the table as it is
  (it rebuilds \<^verbatim>\<open>Needs2KeyMap\<close>, which the first did not).
\<close>

lemma Update_twice_from_empty:
  assumes dflt: "fst (MapByName (AvailKeyMaps st) (DefaultKeyMap st)) = Some dkm"
      and other: "dkm \<noteq> map_at a"
      and empty: "entries (purge_nil st (map_at a)) (map_at a) = []"
      and dist: "distinct (map fst (entries st dkm))"
      and noNil: "\<forall>d \<in> set (entries st dkm). snd d \<noteq> KeyFunNil"
  shows "\<exists>st1 st2. Update st (Some (map_at a)) = Some st1 \<and> Update st1 (Some (map_at a)) = Some st2
           \<and> entries st2 (map_at a) = entries st1 (map_at a)"
proof -
  define st0 where "st0 = purge_nil st (map_at a)"
  define d where "d = entries st dkm"
  define st1 where "st1 = with_table st0 a d"
  have d0: "entries st0 dkm = d"
    using other by (simp add: st0_def d_def purge_nil_map_at entries_with_table_other)
  have "assign_list (to_items d) [] = [] @ d"
    by (rule assign_list_distinct) (simp add: dist d_def)
  then have first: "Update st (Some (map_at a)) = Some st1"
    unfolding Update_map_at [OF dflt] Let_def st0_def [symmetric] d0
    using empty by (simp add: st0_def st1_def)
  have dflt1: "fst (MapByName (AvailKeyMaps st1) (DefaultKeyMap st1)) = Some dkm"
    using dflt by (simp add: st1_def st0_def)
  have tab1: "tables st1 a = d"
    by (simp add: st1_def)
  have d_noNil: "\<forall>e \<in> set d. snd e \<noteq> KeyFunNil"
    using noNil by (simp add: d_def)
  have "purge_nil st1 (map_at a) = with_table st1 a (purge_list (tables st1 a) (tables st1 a))"
    by (rule purge_nil_map_at)
  also have "\<dots> = with_table st1 a (tables st1 a)"
    using purge_list_id [OF d_noNil] by (simp add: tab1)
  also have "\<dots> = st1"
    by (rule with_table_same)
  finally have purge1: "purge_nil st1 (map_at a) = st1" .
  have e1: "entries st1 (map_at a) = d"
    by (simp add: entries_def tab1)
  have d1: "entries st1 dkm = d"
    using other d0 by (cases dkm) (auto simp: entries_def st1_def)
  have adds: "merge_rest (sort_by_Fun (to_items d)) (sort_by_Fun (to_items d)) [] = []"
    by (rule merge_rest_same_funs) simp
  have "\<exists>st2. Update st1 (Some (map_at a)) = Some st2 \<and> entries st2 (map_at a) = d"
    unfolding Update_map_at [OF dflt1] Let_def purge1 e1 d1
    by (simp add: merge_loop_drop adds assign_list_def entries_def to_items_Nil)
  with first e1 show ?thesis by auto
qed

section \<open>Update on the example states\<close>

lemmas gide_eval = Update_def with_table_def init_gide_def StdKeyMaps_def std_entries_def
  purge_nil_def entries_def MapByName_def ToSlice_def sort_by_Fun_def not_set_item_def
  TrimPrefix_def map_delete_def map_assign_def collect_needs2_def Let_def

lemma init_default: "fst (MapByName (AvailKeyMaps init_gide) (DefaultKeyMap init_gide)) = Some (map_at 1)"
  by (simp add: init_gide_def StdKeyMaps_def MapByName_def)

text \<open>The hypotheses of \<open>Update_twice_without_marker_chords\<close> hold of a map of the examples.\<close>

lemma Update_twice_same_example:
  "\<exists>st1. Update ex_prev (Some (map_at 6)) = Some st1 \<and> Update st1 (Some (map_at 6)) = Some st1"
proof (rule Update_twice_without_marker_chords [where dkm = "map_at 1"])
  show "fst (MapByName (AvailKeyMaps ex_prev) (DefaultKeyMap ex_prev)) = Some (map_at 1)"
    by (simp add: ex_prev_def init_gide_def StdKeyMaps_def MapByName_def with_table_def)
  show "map_at 1 \<noteq> map_at 6" by simp
  show "entries (purge_nil ex_prev (map_at 6)) (map_at 6) \<noteq> []"
    by (simp add: ex_prev_def gide_eval)
  show "distinct (map fst (entries ex_prev (map_at 6)))"
    by (simp add: ex_prev_def gide_eval)
  show "\<forall>d \<in> set (entries ex_prev (map_at 1)). snd d \<noteq> KeyFunNil"
    by (simp add: ex_prev_def gide_eval)
  show "\<forall>e \<in> set (entries ex_prev (map_at 6)). take 12 (Key1 (fst e)) \<noteq> ''- Not Set - ''"
    by (simp add: ex_prev_def gide_eval)
  show "distinct (map (\<lambda>d. Keys (not_set_item d)) (to_items (entries ex_prev (map_at 1))))"
    by (simp add: ex_prev_def gide_eval to_items_def)
qed

text \<open>
  C1, at a failing input. The map binds \<^verbatim>\<open>Control+N\<close> to
  \<^verbatim>\<open>KeyFunNextPanel\<close> and nothing else. The merge loop finds the first default item
  equal, advances \<^verbatim>\<open>mi\<close> to the end of the map's items and stops at the next default
  item: nothing is added, and \<^verbatim>\<open>KeyFunPrevPanel\<close>, which the default map binds, has no
  binding in the map after \<^verbatim>\<open>Update\<close>. No default entry is added whatever the order
  of the tables, so the result does not depend on it.
\<close>

theorem Update_leaves_functions_unbound:
  "\<exists>st'. Update ex_single (Some (map_at 6)) = Some st'
     \<and> fst (MapByName (AvailKeyMaps st') (DefaultKeyMap st')) = Some (map_at 1)
     \<and> map_of (entries st' (map_at 1)) \<lparr>Key1 = ''Control+X'', Key2 = ''p''\<rparr> = Some KeyFunPrevPanel
     \<and> entries st' (map_at 6) = [(\<lparr>Key1 = ''Control+N'', Key2 = ''''\<rparr>, KeyFunNextPanel)]
     \<and> KeyFunPrevPanel \<notin> snd ` set (entries st' (map_at 6))"
  by (simp add: ex_single_def gide_eval)

text \<open>
  C3, at a failing input. On the empty map of the state after \<^verbatim>\<open>init\<close>,
  \<^verbatim>\<open>Update\<close> copies the default entries and returns before the loop that rebuilds
  \<^verbatim>\<open>Needs2KeyMap\<close>: the map then binds \<^verbatim>\<open>Control+X o\<close>, yet \<^verbatim>\<open>Control+X\<close> is
  not in \<^verbatim>\<open>Needs2KeyMap\<close>, and once the map is active \<^verbatim>\<open>KeyFun\<close> resolves
  \<^verbatim>\<open>Control+X\<close> alone to \<^verbatim>\<open>KeyFunNil\<close>.
\<close>

theorem stale_index_after_bootstrap:
  "\<exists>st'. Update init_gide (Some (map_at 6)) = Some st'
     \<and> entries init_gide (map_at 6) = []
     \<and> map_of (entries st' (map_at 6)) \<lparr>Key1 = ''Control+X'', Key2 = ''o''\<rparr> = Some KeyFunNextPanel
     \<and> Needs2KeyMap st' ''Control+X'' = None
     \<and> KeyFun (st'\<lparr>ActiveKeyMap := Some (map_at 6)\<rparr>) ''Control+X'' '''' = Some KeyFunNil"
  by (simp add: gide_eval KeyFun_def)

text \<open>
  C7, at a failing input. The map binds the chord pair of the marker for
  \<^verbatim>\<open>KeyFunNextPanel\<close> to \<^verbatim>\<open>KeyFunPrevPanel\<close>. The first \<^verbatim>\<open>Update\<close> adds the
  marker entry for \<^verbatim>\<open>KeyFunNextPanel\<close> under that very key, which overwrites the
  only binding of \<^verbatim>\<open>KeyFunPrevPanel\<close>; the second \<^verbatim>\<open>Update\<close> then adds a marker
  entry for \<^verbatim>\<open>KeyFunPrevPanel\<close>, which the result of the first does not have. Both
  markers for \<^verbatim>\<open>KeyFunFileOpen\<close> are added in either order of the default table, so
  the two results do not depend on it.
\<close>

theorem Update_twice_differs:
  "\<exists>st1 st2. Update ex_marker_key (Some (map_at 6)) = Some st1
     \<and> Update st1 (Some (map_at 6)) = Some st2
     \<and> map_of (entries st1 (map_at 6)) \<lparr>Key1 = ''- Not Set - PrevPanel'', Key2 = ''p''\<rparr> = None
     \<and> map_of (entries st2 (map_at 6)) \<lparr>Key1 = ''- Not Set - PrevPanel'', Key2 = ''p''\<rparr> = Some KeyFunPrevPanel
     \<and> KeyFunPrevPanel \<notin> snd ` set (entries st1 (map_at 6))"
  by (simp add: ex_marker_key_def gide_eval)

text \<open>
  C2 as stated fails: \<^verbatim>\<open>KeyFunNextPanel\<close> is bound in the default map
  (\<^verbatim>\<open>Control+X o\<close>) and bound nowhere in the map, which is not empty; after
  \<^verbatim>\<open>Update\<close> the map does not hold the default binding but the marker entry.
\<close>

theorem Update_copy_counterexample:
  "\<exists>st'. Update ex_prev (Some (map_at 6)) = Some st'
     \<and> entries ex_prev (map_at 6) \<noteq> []
     \<and> fst (MapByName (AvailKeyMaps ex_prev) (DefaultKeyMap ex_prev)) = Some (map_at 1)
     \<and> map_of (entries ex_prev (map_at 1)) \<lparr>Key1 = ''Control+X'', Key2 = ''o''\<rparr> = Some KeyFunNextPanel
     \<and> KeyFunNextPanel \<notin> snd ` set (entries ex_prev (map_at 6))
     \<and> map_of (entries st' (map_at 6)) \<lparr>Key1 = ''Control+X'', Key2 = ''o''\<rparr> = None
     \<and> map_of (entries st' (map_at 6)) \<lparr>Key1 = ''- Not Set - NextPanel'', Key2 = ''o''\<rparr> = Some KeyFunNextPanel"
  by (simp add: ex_prev_def gide_eval)

text \<open>
  C5 as stated fails: the default map of the state after \<^verbatim>\<open>init\<close> binds six
  functions, and the empty map holds seven entries after \<^verbatim>\<open>Update\<close>, two of them
  for \<^verbatim>\<open>KeyFunFileOpen\<close>.
\<close>

theorem Update_bootstrap_counterexample:
  "\<exists>st'. Update init_gide (Some (map_at 6)) = Some st'
     \<and> entries init_gide (map_at 6) = []
     \<and> fst (MapByName (AvailKeyMaps init_gide) (DefaultKeyMap init_gide)) = Some (map_at 1)
     \<and> card (snd ` set (entries init_gide (map_at 1))) = 6
     \<and> length (entries st' (map_at 6)) = 7
     \<and> map_of (entries st' (map_at 6)) \<lparr>Key1 = ''Control+X'', Key2 = ''f''\<rparr> = Some KeyFunFileOpen
     \<and> map_of (entries st' (map_at 6)) \<lparr>Key1 = ''Control+X'', Key2 = ''Control+F''\<rparr> = Some KeyFunFileOpen"
  by (simp add: gide_eval)

text \<open>
  C8 as stated fails: an entry bound to \<^verbatim>\<open>KeyFunNeeds2\<close> is still in the map
  after \<^verbatim>\<open>Update\<close>.
\<close>

theorem Update_keeps_Needs2_counterexample:
  "\<exists>st'. Update ex_needs2 (Some (map_at 6)) = Some st'
     \<and> map_of (entries st' (map_at 6)) \<lparr>Key1 = ''Control+N'', Key2 = ''''\<rparr> = Some KeyFunNeeds2"
  by (simp add: ex_needs2_def gide_eval)

text \<open>
  The scenario of C4: a map with \<^verbatim>\<open>Control+C\<close> alone and \<^verbatim>\<open>Control+C Control+C\<close>;
  after \<^verbatim>\<open>SetActiveKeyMap\<close> both bindings are in the active map and
  \<^verbatim>\<open>Control+C\<close> alone resolves to \<^verbatim>\<open>KeyFunNeeds2\<close>.
\<close>

theorem KeyFun_prefix_first_witness:
  "\<exists>st'. SetActiveKeyMap ex_conflict (Some (map_at 6)) = Some st'
     \<and> ActiveKeyMap st' = Some (map_at 6)
     \<and> map_of (entries st' (map_at 6)) \<lparr>Key1 = ''Control+C'', Key2 = ''''\<rparr> = Some KeyFunBufSave
     \<and> map_of (entries st' (map_at 6)) \<lparr>Key1 = ''Control+C'', Key2 = ''Control+C''\<rparr> = Some KeyFunExecCmd
     \<and> KeyFun st' ''Control+C'' '''' = Some KeyFunNeeds2"
proof -
  have dflt: "fst (MapByName (AvailKeyMaps ex_conflict) (DefaultKeyMap ex_conflict)) = Some (map_at 1)"
    by (simp add: ex_conflict_def init_gide_def StdKeyMaps_def MapByName_def with_table_def)
  have nonempty: "entries (purge_nil ex_conflict (map_at 6)) (map_at 6) \<noteq> []"
    by (simp add: ex_conflict_def gide_eval)
  from Update_rebuilds_index [OF dflt nonempty]
  obtain st1 where u: "Update ex_conflict (Some (map_at 6)) = Some st1"
    and n: "Needs2KeyMap st1 = collect_needs2 (entries st1 (map_at 6))"
    by blast
  from u have e: "entries st1 (map_at 6) =
     [(\<lparr>Key1 = ''Control+C'', Key2 = ''''\<rparr>, KeyFunBufSave),
      (\<lparr>Key1 = ''Control+C'', Key2 = ''Control+C''\<rparr>, KeyFunExecCmd),
      (\<lparr>Key1 = ''- Not Set - NextPanel'', Key2 = ''o''\<rparr>, KeyFunNextPanel),
      (\<lparr>Key1 = ''- Not Set - PrevPanel'', Key2 = ''p''\<rparr>, KeyFunPrevPanel),
      (\<lparr>Key1 = ''- Not Set - FileOpen'', Key2 = ''f''\<rparr>, KeyFunFileOpen),
      (\<lparr>Key1 = ''- Not Set - FileOpen'', Key2 = ''Control+F''\<rparr>, KeyFunFileOpen),
      (\<lparr>Key1 = ''- Not Set - BufSelect'', Key2 = ''b''\<rparr>, KeyFunBufSelect)]"
    by (auto simp: ex_conflict_def gide_eval)
  let ?st = "st1\<lparr>ActiveKeyMap := Some (map_at 6)\<rparr>"
  have e': "entries ?st (map_at 6) = entries st1 (map_at 6)"
    by (simp add: entries_def)
  have "KeyFun ?st ''Control+C'' [] = Some KeyFunNeeds2"
    by (rule KeyFun_prefix_first [where m = "map_at 6" and ?key2.0 = "''Control+C''" and f = KeyFunExecCmd])
       (simp_all add: n e' e)
  moreover have "SetActiveKeyMap ex_conflict (Some (map_at 6)) = Some ?st"
    by (simp add: SetActiveKeyMap_def u)
  ultimately show ?thesis
    by (intro exI [of _ ?st]) (simp add: e' e)
qed

text \<open>
  C9 in the state after \<^verbatim>\<open>init\<close>: a name that is not there, and \<^verbatim>\<open>"MacEmacs"\<close>,
  the second item.
\<close>

theorem SetActiveKeyMapName_by_name_witness:
  "SetActiveKeyMapName init_gide ''Emacs'' = Some init_gide
   \<and> (\<exists>st'. SetActiveKeyMapName init_gide ''MacEmacs'' = Some st'
          \<and> ActiveKeyMap st' = Some (map_at 1)
          \<and> entries st' (map_at 1) = std_entries
          \<and> Needs2KeyMap st' ''Control+X'' = Some gi_KeyFunNil)"
proof -
  have "SetActiveKeyMapName init_gide ''Emacs'' = Some init_gide"
    using SetActiveKeyMapName_by_name [of init_gide "''Emacs''"]
    by (simp add: init_gide_def StdKeyMaps_def)
  moreover have "SetActiveKeyMapName init_gide ''MacEmacs'' =
      (case Update init_gide (Some (Map (AvailKeyMaps init_gide ! 1))) of
         None \<Rightarrow> None
       | Some st' \<Rightarrow> Some (st'\<lparr>ActiveKeyMap := Some (Map (AvailKeyMaps init_gide ! 1))\<rparr>))"
    using SetActiveKeyMapName_by_name [of init_gide "''MacEmacs''", THEN conjunct2, THEN spec, of 1]
    by (simp add: init_gide_def StdKeyMaps_def)
  ultimately show ?thesis
    by (simp add: gide_eval)
qed

text \<open>C5 as amended, on the empty map of the state after \<^verbatim>\<open>init\<close>.\<close>

theorem Update_bootstrap_witness:
  "fst (MapByName (AvailKeyMaps init_gide) (DefaultKeyMap init_gide)) = Some (map_at 1)
   \<and> entries (purge_nil init_gide (map_at 6)) (map_at 6) = []
   \<and> distinct (map fst (entries init_gide (map_at 1)))
   \<and> (\<exists>st'. Update init_gide (Some (map_at 6)) = Some st'
          \<and> entries st' (map_at 6) = entries st' (map_at 1)
          \<and> length (entries st' (map_at 6)) = 7
          \<and> entries st' (map_at 1) = std_entries)"
proof -
  have h1: "fst (MapByName (AvailKeyMaps init_gide) (DefaultKeyMap init_gide)) = Some (map_at 1)"
    by (rule init_default)
  have h2: "entries (purge_nil init_gide (map_at 6)) (map_at 6) = []"
    by (simp add: gide_eval)
  have h3: "distinct (map fst (entries init_gide (map_at 1)))"
    by (simp add: gide_eval)
  have e: "entries init_gide (map_at 1) = std_entries"
    by (simp add: init_gide_def StdKeyMaps_def entries_def)
  from Update_bootstrap [OF h1 h2 h3] obtain st' where
    "Update init_gide (Some (map_at 6)) = Some st'"
    "entries st' (map_at 6) = entries st' (map_at 1)"
    "length (entries st' (map_at 6)) = length (entries st' (map_at 1))"
    "entries st' (map_at 1) = entries init_gide (map_at 1)"
    by auto
  with h1 h2 h3 e show ?thesis
    by (auto simp: std_entries_def)
qed

text \<open>C2 as amended, on a map that binds \<^verbatim>\<open>KeyFunPrevPanel\<close> only.\<close>

theorem Update_fills_with_markers_witness:
  "fst (MapByName (AvailKeyMaps ex_prev) (DefaultKeyMap ex_prev)) = Some (map_at 1)
   \<and> entries (purge_nil ex_prev (map_at 6)) (map_at 6) \<noteq> []
   \<and> (\<exists>st'. Update ex_prev (Some (map_at 6)) = Some st'
     \<and> (\<forall>e \<in> set (entries st' (map_at 6)).
           e \<in> set (entries (purge_nil ex_prev (map_at 6)) (map_at 6))
         \<or> (\<exists>d \<in> set (entries (purge_nil ex_prev (map_at 6)) (map_at 1)).
               Key1 (fst e) = ''- Not Set - '' @ TrimPrefix (KeyFuns_String (snd d)) ''KeyFun''
             \<and> snd e = snd d))
     \<and> (\<forall>e \<in> set (entries (purge_nil ex_prev (map_at 6)) (map_at 6)).
           take 12 (Key1 (fst e)) \<noteq> ''- Not Set - '' \<longrightarrow> e \<in> set (entries st' (map_at 6))))
   \<and> (\<exists>st'. Update ex_prev (Some (map_at 6)) = Some st'
     \<and> entries st' (map_at 6) =
         [(\<lparr>Key1 = ''Control+P'', Key2 = ''''\<rparr>, KeyFunPrevPanel),
          (\<lparr>Key1 = ''- Not Set - NextPanel'', Key2 = ''o''\<rparr>, KeyFunNextPanel)])"
proof -
  have h1: "fst (MapByName (AvailKeyMaps ex_prev) (DefaultKeyMap ex_prev)) = Some (map_at 1)"
    by (simp add: ex_prev_def init_gide_def StdKeyMaps_def MapByName_def with_table_def)
  have h2: "entries (purge_nil ex_prev (map_at 6)) (map_at 6) \<noteq> []"
    by (simp add: ex_prev_def gide_eval)
  have ev: "\<exists>st'. Update ex_prev (Some (map_at 6)) = Some st'
     \<and> entries st' (map_at 6) =
         [(\<lparr>Key1 = ''Control+P'', Key2 = ''''\<rparr>, KeyFunPrevPanel),
          (\<lparr>Key1 = ''- Not Set - NextPanel'', Key2 = ''o''\<rparr>, KeyFunNextPanel)]"
    by (simp add: ex_prev_def gide_eval)
  from h1 h2 Update_fills_with_markers [OF h1 h2] ev show ?thesis
    by (intro conjI)
qed

text \<open>C8 as amended, on a map with an entry bound to \<^verbatim>\<open>KeyFunNil\<close>.\<close>

theorem Update_no_Nil_witness:
  "\<exists>st'. Update ex_stale (Some (map_at 6)) = Some st'
     \<and> fst (MapByName (AvailKeyMaps ex_stale) (DefaultKeyMap ex_stale)) = Some (map_at 1)
     \<and> list_all (\<lambda>d. snd d \<noteq> KeyFunNil) (entries (purge_nil ex_stale (map_at 6)) (map_at 1))
     \<and> map_of (entries ex_stale (map_at 6)) \<lparr>Key1 = ''Control+O'', Key2 = ''''\<rparr> = Some KeyFunNil
     \<and> list_all (\<lambda>e. snd e \<noteq> KeyFunNil) (entries st' (map_at 6))"
proof -
  have h1: "fst (MapByName (AvailKeyMaps ex_stale) (DefaultKeyMap ex_stale)) = Some (map_at 1)"
    by (simp add: ex_stale_def init_gide_def StdKeyMaps_def MapByName_def with_table_def)
  have h2: "list_all (\<lambda>d. snd d \<noteq> KeyFunNil) (entries (purge_nil ex_stale (map_at 6)) (map_at 1))"
    by (simp add: ex_stale_def gide_eval)
  have h3: "map_of (entries ex_stale (map_at 6)) \<lparr>Key1 = ''Control+O'', Key2 = ''''\<rparr> = Some KeyFunNil"
    by (simp add: ex_stale_def gide_eval)
  obtain st' where u: "Update ex_stale (Some (map_at 6)) = Some st'"
    by (simp add: ex_stale_def gide_eval)
  have "\<forall>e \<in> set (entries st' (map_at 6)). snd e \<noteq> KeyFunNil"
    using Update_no_Nil [OF u h1] h2 by (simp add: list_all_iff)
  then have "list_all (\<lambda>e. snd e \<noteq> KeyFunNil) (entries st' (map_at 6))"
    by (simp add: list_all_iff)
  with u h1 h2 h3 show ?thesis by blast
qed

end
